theory Spec2Isabelle
  imports Complex_Main "HOL-Library.Multiset" "HOL-Library.Sublist"
begin

section \<open>Strings\<close>

text \<open>
  The TypeScript sources test messages with \<^verbatim>\<open>startsWith\<close>, \<^verbatim>\<open>includes\<close> and
  \<^verbatim>\<open>toLowerCase\<close>. Strings are modelled as \<^typ>\<open>string\<close>; lower-casing covers the
  ASCII letters.
\<close>

fun startsWith :: "string \<Rightarrow> string \<Rightarrow> bool" where
  "startsWith s [] = True"
| "startsWith [] (p # ps) = False"
| "startsWith (c # cs) (p # ps) = (c = p \<and> startsWith cs ps)"

fun str_includes :: "string \<Rightarrow> string \<Rightarrow> bool" where
  "str_includes [] p = (p = [])"
| "str_includes (c # cs) p = (startsWith (c # cs) p \<or> str_includes cs p)"

definition toLowerChar :: "char \<Rightarrow> char" where
  "toLowerChar c =
     (case map_of (zip ''ABCDEFGHIJKLMNOPQRSTUVWXYZ'' ''abcdefghijklmnopqrstuvwxyz'') c of
        None \<Rightarrow> c
      | Some l \<Rightarrow> l)"

definition toLowerCase :: "string \<Rightarrow> string" where
  "toLowerCase s = map toLowerChar s"

section \<open>The stream reader hook (useAgentStreamEnhanced)\<close>

subsection \<open>State\<close>

datatype health = healthy | degraded | disconnected

datatype severity = low | medium | high | critical

record ConnectionHealth =
  health_status :: health
  lastHeartbeat :: nat
  latency :: nat
  reconnectAttempts :: nat

record ProgressInfo =
  percentage :: nat
  currentStep :: string
  estimatedTimeRemaining :: "nat option"
  completedSteps :: "string list"

record ErrorEvent =
  timestamp :: nat
  message :: string
  type :: string
  severity :: severity
  recoverable :: bool

record EnhancedStreamState =
  connectionHealth :: ConnectionHealth
  progress :: ProgressInfo
  retryCount :: nat
  errorHistory :: "ErrorEvent list"
  isRecovering :: bool
  queuePosition :: "nat option"

text \<open>One streamed text chunk as \<^verbatim>\<open>handleStreamMessage\<close> stores it:
  \<^verbatim>\<open>{ content: string; sequence?: number }\<close>.\<close>

record TextChunk =
  content :: string
  sequence :: "int option"

text \<open>
  The types \<^verbatim>\<open>UnifiedMessage\<close>, \<^verbatim>\<open>ParsedContent\<close> and \<^verbatim>\<open>ParsedMetadata\<close> are imported by
  the hook from another module; these records hold the fields the hook reads.
\<close>

record UnifiedMessage =
  msg_type :: string
  msg_content :: string
  msg_metadata :: string
  message_id :: "string option"
  msg_sequence :: "int option"
  msg_status :: "string option"

record ParsedContent =
  parsed_content :: "string option"
  parsed_rest :: string

record ParsedMetadata =
  stream_status :: "string option"

text \<open>
  \<^verbatim>\<open>safeJsonParse\<close> is imported as well. It is a parameter of the model: one function
  for each of the three types it is called at, the first returning \<open>None\<close> where the
  source gets the fallback \<^verbatim>\<open>null\<close>.
\<close>

record Json =
  parseMessage :: "string \<Rightarrow> UnifiedMessage option"
  parseContent :: "string \<Rightarrow> ParsedContent"
  parseMetadata :: "string \<Rightarrow> ParsedMetadata"

text \<open>The calls that leave the hook: the API functions and the callbacks.\<close>

datatype Effect =
    StopAgent string
  | StreamAgent string
  | StreamCleanup
  | OnMessage UnifiedMessage
  | OnProgressUpdate ProgressInfo
  | OnConnectionChange ConnectionHealth
  | OnError ErrorEvent
  | OnClose string
  | OnAssistantStart
  | OnAssistantChunk string
  | Toast string

text \<open>
  The state of one instance of the hook: the React state variables and the refs. A ref
  holding a cleanup function or a timer handle is modelled by whether it is set. The
  field \<open>effects\<close> is the log of the outside calls made so far, the newest last: a step
  that leaves the whole record unchanged has called nothing.
\<close>

record Hook =
  agentRunId :: "string option"
  status :: string
  textContent :: "TextChunk list"
  toolCall :: "ParsedContent option"
  error :: "string option"
  streamState :: EnhancedStreamState
  streamCleanupRef :: bool
  isMountedRef :: bool
  currentRunIdRef :: "string option"
  heartbeatIntervalRef :: bool
  statusPollIntervalRef :: bool
  reconnectTimeoutRef :: bool
  effects :: "Effect list"

definition emit :: "Effect \<Rightarrow> Hook \<Rightarrow> Hook" where
  "emit e h = h\<lparr> effects := effects h @ [e] \<rparr>"

text \<open>The initial state of the hook, mounted at time \<open>now\<close>.\<close>

definition initialHook :: "nat \<Rightarrow> Hook" where
  "initialHook now =
     \<lparr> agentRunId = None, status = ''idle'', textContent = [], toolCall = None, error = None,
       streamState =
         \<lparr> connectionHealth =
             \<lparr> health_status = healthy, lastHeartbeat = now, latency = 0,
               reconnectAttempts = 0 \<rparr>,
           progress =
             \<lparr> percentage = 0, currentStep = ''Idle'', estimatedTimeRemaining = None,
               completedSteps = [] \<rparr>,
           retryCount = 0, errorHistory = [], isRecovering = False, queuePosition = None \<rparr>,
       streamCleanupRef = False, isMountedRef = True, currentRunIdRef = None,
       heartbeatIntervalRef = False, statusPollIntervalRef = False,
       reconnectTimeoutRef = False, effects = [] \<rparr>"

text \<open>JavaScript truthiness of a string that may be \<^verbatim>\<open>null\<close> or \<^verbatim>\<open>undefined\<close>.\<close>

definition truthy :: "string option \<Rightarrow> bool" where
  "truthy v = (case v of None \<Rightarrow> False | Some s \<Rightarrow> s \<noteq> [])"

subsection \<open>orderedTextContent\<close>



subsection \<open>updateConnectionHealth and updateProgress\<close>

record HealthUpdate =
  up_status :: "health option"
  up_lastHeartbeat :: "nat option"
  up_latency :: "nat option"
  up_reconnectAttempts :: "nat option"

record ProgressUpdate =
  up_percentage :: "nat option"
  up_currentStep :: "string option"
  up_estimatedTimeRemaining :: "nat option"
  up_completedSteps :: "string list option"

definition orElse :: "'a option \<Rightarrow> 'a \<Rightarrow> 'a" where
  "orElse v d = (case v of None \<Rightarrow> d | Some x \<Rightarrow> x)"

definition updateConnectionHealth :: "HealthUpdate \<Rightarrow> Hook \<Rightarrow> Hook" where
  "updateConnectionHealth u h =
     (if \<not> isMountedRef h then h
      else
        let prev = connectionHealth (streamState h);
            newHealth =
              \<lparr> health_status = orElse (up_status u) (health_status prev),
                lastHeartbeat = orElse (up_lastHeartbeat u) (lastHeartbeat prev),
                latency = orElse (up_latency u) (latency prev),
                reconnectAttempts = orElse (up_reconnectAttempts u) (reconnectAttempts prev) \<rparr>;
            h1 = (if health_status newHealth \<noteq> health_status prev
                  then emit (OnConnectionChange newHealth) h else h)
        in h1\<lparr> streamState := (streamState h1)\<lparr> connectionHealth := newHealth \<rparr> \<rparr>)"

definition updateProgress :: "ProgressUpdate \<Rightarrow> Hook \<Rightarrow> Hook" where
  "updateProgress u h =
     (if \<not> isMountedRef h then h
      else
        let prev = progress (streamState h);
            merged =
              \<lparr> percentage = orElse (up_percentage u) (percentage prev),
                currentStep = orElse (up_currentStep u) (currentStep prev),
                estimatedTimeRemaining =
                  (case up_estimatedTimeRemaining u of
                     None \<Rightarrow> estimatedTimeRemaining prev
                   | Some t \<Rightarrow> Some t),
                completedSteps = orElse (up_completedSteps u) (completedSteps prev) \<rparr>;
            newProgress =
              (if truthy (up_currentStep u) \<and> up_currentStep u \<noteq> Some (currentStep prev)
                  \<and> currentStep prev \<noteq> []
                  \<and> currentStep prev \<notin> set (completedSteps merged)
               then merged\<lparr> completedSteps := completedSteps merged @ [currentStep prev] \<rparr>
               else merged);
            h1 = emit (OnProgressUpdate newProgress) h
        in h1\<lparr> streamState := (streamState h1)\<lparr> progress := newProgress \<rparr> \<rparr>)"

subsection \<open>classifyError and addError\<close>

definition classifyError :: "string \<Rightarrow> string \<times> severity \<times> bool" where
  "classifyError err =
     (let errorLower = toLowerCase err in
      if str_includes errorLower ''network'' \<or> str_includes errorLower ''connection''
        then (''network'', medium, True)
      else if str_includes errorLower ''timeout'' then (''timeout'', medium, True)
      else if str_includes errorLower ''rate limit'' then (''rate_limit'', high, True)
      else if str_includes errorLower ''billing'' \<or> str_includes errorLower ''quota''
        then (''billing'', critical, False)
      else if str_includes errorLower ''authentication'' then (''auth'', critical, False)
      else (''unknown'', medium, True))"

definition mkErrorEvent :: "string \<Rightarrow> nat \<Rightarrow> ErrorEvent" where
  "mkErrorEvent errorMessage now =
     (case classifyError errorMessage of
        (t, sev, rec) \<Rightarrow>
          \<lparr> timestamp = now, message = errorMessage, type = t, severity = sev,
            recoverable = rec \<rparr>)"

text \<open>\<^verbatim>\<open>xs.slice(-n)\<close>: the last \<open>n\<close> elements, all of them when there are fewer.\<close>

definition slice_last :: "nat \<Rightarrow> 'a list \<Rightarrow> 'a list" where
  "slice_last n xs = drop (length xs - n) xs"

text \<open>
  \<^verbatim>\<open>addError\<close> at time \<open>now\<close> (the value of \<^verbatim>\<open>Date.now()\<close>). It returns at once
  when the component is unmounted; otherwise it appends the new event to the last nine
  entries of the history, calls \<^verbatim>\<open>onError\<close> and shows a toast for the severities
  critical and high.
\<close>

definition errorToast :: "ErrorEvent \<Rightarrow> Hook \<Rightarrow> Hook" where
  "errorToast ev h =
     (if severity ev = critical then emit (Toast (''Critical Error: '' @ message ev)) h
      else if severity ev = high then emit (Toast (''Error: '' @ message ev)) h
      else h)"

definition addError :: "string \<Rightarrow> nat \<Rightarrow> Hook \<Rightarrow> Hook" where
  "addError errorMessage now h =
     (if \<not> isMountedRef h then h
      else
        let errorEvent = mkErrorEvent errorMessage now;
            h1 = h\<lparr> streamState := (streamState h)\<lparr> errorHistory :=
                   slice_last 9 (errorHistory (streamState h)) @ [errorEvent] \<rparr> \<rparr>
        in errorToast errorEvent (emit (OnError errorEvent) h1))"

subsection \<open>handleStreamMessage\<close>

definition isSpace :: "char \<Rightarrow> bool" where
  "isSpace c = (c \<in> set [CHR '' '', CHR 0x09, CHR 0x0A, CHR 0x0B, CHR 0x0C, CHR 0x0D])"

definition trim :: "string \<Rightarrow> string" where
  "trim s = rev (dropWhile isSpace (rev (dropWhile isSpace s)))"

definition processData :: "string \<Rightarrow> string" where
  "processData rawData =
     (if startsWith rawData ''data: '' then trim (drop 6 rawData) else rawData)"

definition notifyMessage :: "UnifiedMessage \<Rightarrow> Hook \<Rightarrow> Hook" where
  "notifyMessage m h = (if truthy (message_id m) then emit (OnMessage m) h else h)"

text \<open>The \<^verbatim>\<open>switch (message.type)\<close> at the end of \<^verbatim>\<open>handleStreamMessage\<close>.\<close>

definition dispatchMessage :: "UnifiedMessage \<Rightarrow> ParsedContent \<Rightarrow> ParsedMetadata \<Rightarrow> Hook \<Rightarrow> Hook" where
  "dispatchMessage m parsedContent parsedMetadata h =
     (if msg_type m = ''assistant'' then
        (if stream_status parsedMetadata = Some ''chunk'' \<and> truthy (parsed_content parsedContent)
         then emit (OnAssistantChunk (the (parsed_content parsedContent)))
                (h\<lparr> textContent := textContent h @
                     [\<lparr> content = the (parsed_content parsedContent),
                        sequence = msg_sequence m \<rparr>] \<rparr>)
         else if stream_status parsedMetadata = Some ''complete''
         then notifyMessage m (h\<lparr> textContent := [], toolCall := None \<rparr>)
         else if \<not> truthy (stream_status parsedMetadata)
         then notifyMessage m (emit OnAssistantStart h)
         else h)
      else if msg_type m = ''tool_call'' then
        notifyMessage m
          (updateProgress
             \<lparr> up_percentage = None, up_currentStep = Some ''Running tools'',
               up_estimatedTimeRemaining = None, up_completedSteps = None \<rparr>
             (h\<lparr> toolCall := Some parsedContent \<rparr>))
      else notifyMessage m h)"

definition handleStreamMessage :: "Json \<Rightarrow> string \<Rightarrow> nat \<Rightarrow> Hook \<Rightarrow> Hook" where
  "handleStreamMessage json rawData now h =
     (if \<not> isMountedRef h then h
      else
        let h1 = updateConnectionHealth
                   \<lparr> up_status = Some healthy, up_lastHeartbeat = Some now, up_latency = None,
                     up_reconnectAttempts = None \<rparr> h;
            processedData = processData rawData
        in
        if processedData = [] then h1
        else if str_includes processedData ''completed'' \<or> str_includes processedData ''Stream ended''
        then updateProgress
               \<lparr> up_percentage = Some 100, up_currentStep = Some ''Completed'',
                 up_estimatedTimeRemaining = None, up_completedSteps = None \<rparr> h1
        else
          (case parseMessage json processedData of
             None \<Rightarrow> h1
           | Some m \<Rightarrow>
               if msg_type m = ''error'' \<or> msg_status m = Some ''error'' then
                 (let errorMessage =
                        (if msg_content m \<noteq> [] then msg_content m else ''Unknown error occurred'')
                  in (addError errorMessage now h1)\<lparr> error := Some errorMessage \<rparr>)
               else
                 let parsedContent = parseContent json (msg_content m);
                     parsedMetadata = parseMetadata json (msg_metadata m);
                     h2 = (if status h1 \<noteq> ''streaming''
                           then updateProgress
                                  \<lparr> up_percentage = None,
                                    up_currentStep = Some ''Processing response'',
                                    up_estimatedTimeRemaining = None, up_completedSteps = None \<rparr>
                                  (h1\<lparr> status := ''streaming'' \<rparr>)
                           else h1)
                 in dispatchMessage m parsedContent parsedMetadata h2))"

subsection \<open>startStreaming and stopStreaming\<close>

text \<open>
  \<^verbatim>\<open>startStreaming(runId)\<close> at time \<open>now\<close>. \<open>streamResult\<close> is what the imported
  \<^verbatim>\<open>streamAgent\<close> does: it returns a cleanup function (\<open>None\<close>) or throws (the text of the
  error).
\<close>

definition startStreaming :: "string \<Rightarrow> string option \<Rightarrow> nat \<Rightarrow> Hook \<Rightarrow> Hook" where
  "startStreaming runId streamResult now h =
     (if \<not> isMountedRef h then h
      else
        let h1 = (if streamCleanupRef h then emit StreamCleanup h else h);
            h2 = h1\<lparr> agentRunId := Some runId, currentRunIdRef := Some runId,
                     status := ''connecting'', error := None \<rparr>;
            prev = streamState h2;
            h3 = h2\<lparr> streamState := prev
                     \<lparr> progress :=
                         \<lparr> percentage = 0, currentStep = ''Connecting...'',
                           estimatedTimeRemaining = None, completedSteps = [] \<rparr>,
                       retryCount := 0,
                       isRecovering := False,
                       connectionHealth := (connectionHealth prev)
                         \<lparr> health_status := healthy, lastHeartbeat := now,
                           reconnectAttempts := 0 \<rparr> \<rparr> \<rparr>;
            h4 = h3\<lparr> heartbeatIntervalRef := True \<rparr>;
            h5 = (if truthy (currentRunIdRef h4) then h4\<lparr> statusPollIntervalRef := True \<rparr> else h4);
            h6 = emit (StreamAgent runId) h5
        in
        (case streamResult of
           None \<Rightarrow>
             updateProgress
               \<lparr> up_percentage = None, up_currentStep = Some ''Stream connected'',
                 up_estimatedTimeRemaining = None, up_completedSteps = None \<rparr>
               (h6\<lparr> streamCleanupRef := True \<rparr>)
         | Some err \<Rightarrow>
             (addError (''Failed to start stream: '' @ err) now h6)\<lparr> status := ''error'' \<rparr>))"

text \<open>
  \<^verbatim>\<open>stopStreaming()\<close> at time \<open>now\<close>. \<open>stopResult\<close> is what the imported
  \<^verbatim>\<open>stopAgent\<close> does: it resolves (\<open>None\<close>) or rejects (the text of the error). The
  call is one step of the model: nothing else touches the hook between the call of
  \<^verbatim>\<open>stopAgent\<close> and its settling.
\<close>

definition stopStreaming :: "string option \<Rightarrow> nat \<Rightarrow> Hook \<Rightarrow> Hook" where
  "stopStreaming stopResult now h =
     (if \<not> isMountedRef h \<or> \<not> truthy (currentRunIdRef h) then h
      else
        let h1 = emit (StopAgent (the (currentRunIdRef h))) h in
        (case stopResult of
           None \<Rightarrow>
             let h2 = (if streamCleanupRef h1
                       then (emit StreamCleanup h1)\<lparr> streamCleanupRef := False \<rparr> else h1);
                 h3 = h2\<lparr> heartbeatIntervalRef := False, statusPollIntervalRef := False \<rparr>;
                 h4 = h3\<lparr> status := ''stopped'', agentRunId := None, currentRunIdRef := None \<rparr>;
                 h5 = updateProgress
                        \<lparr> up_percentage = Some 0, up_currentStep = Some ''Stopped'',
                          up_estimatedTimeRemaining = None, up_completedSteps = None \<rparr> h4
             in emit (OnClose ''stopped'') h5
         | Some err \<Rightarrow> addError (''Failed to stop agent: '' @ err) now h1))"


subsection \<open>The hook over time\<close>

text \<open>
  What happens to a hook, one step at a time: \<^verbatim>\<open>startStreaming\<close> is called, \<^verbatim>\<open>stopStreaming\<close>
  is called (and \<^verbatim>\<open>stopAgent\<close> settles), the stream delivers a message, the component is
  unmounted.
\<close>

datatype HookEvent =
    StartStreaming string "string option" nat
  | StopStreaming "string option" nat
  | StreamMessage string nat
  | Unmount

fun hookStep :: "Json \<Rightarrow> Hook \<Rightarrow> HookEvent \<Rightarrow> Hook" where
  "hookStep json h (StartStreaming runId streamResult now) = startStreaming runId streamResult now h"
| "hookStep json h (StopStreaming stopResult now) = stopStreaming stopResult now h"
| "hookStep json h (StreamMessage rawData now) = handleStreamMessage json rawData now h"
| "hookStep json h Unmount = h\<lparr> isMountedRef := False \<rparr>"

definition hookRun :: "Json \<Rightarrow> Hook \<Rightarrow> HookEvent list \<Rightarrow> Hook" where
  "hookRun json h evs = foldl (hookStep json) h evs"


text \<open>
  A sample parser: the raw messages \<open>A\<close> and \<open>B\<close> are two assistant chunks with the same
  sequence number, \<open>C\<close> is a chunk with a later one, and \<open>task completed\<close> is a chunk
  with that text and a still later one; the parsed content of a string is the string,
  the stream status of a metadata string is the string.
\<close>

definition sampleMessage :: "string \<Rightarrow> int \<Rightarrow> UnifiedMessage" where
  "sampleMessage txt n =
     \<lparr> msg_type = ''assistant'', msg_content = txt, msg_metadata = ''chunk'',
       message_id = None, msg_sequence = Some n, msg_status = None \<rparr>"

definition sampleJson :: Json where
  "sampleJson =
     \<lparr> parseMessage = (\<lambda>raw.
         if raw = ''A'' then Some (sampleMessage ''Hello '' 1)
         else if raw = ''B'' then Some (sampleMessage ''world'' 1)
         else if raw = ''C'' then Some (sampleMessage ''!'' 2)
         else if raw = ''task completed'' then Some (sampleMessage ''task completed'' 3)
         else None),
       parseContent = (\<lambda>s. \<lparr> parsed_content = Some s, parsed_rest = [] \<rparr>),
       parseMetadata = (\<lambda>s. \<lparr> stream_status = (if s = [] then None else Some s) \<rparr>) \<rparr>"

subsection \<open>Notions used to state the properties of the hook\<close>

text \<open>The fields of the hook other than the stream state and the log of outside calls.\<close>

definition core :: "Hook \<Rightarrow> (string option \<times> string \<times> TextChunk list \<times> ParsedContent option \<times> string option)
    \<times> (bool \<times> bool \<times> string option \<times> bool \<times> bool \<times> bool)" where
  "core h = ((agentRunId h, status h, textContent h, toolCall h, error h),
             (streamCleanupRef h, isMountedRef h, currentRunIdRef h, heartbeatIntervalRef h,
              statusPollIntervalRef h, reconnectTimeoutRef h))"





definition stoppedMeansCleared :: "Hook \<Rightarrow> bool" where
  "stoppedMeansCleared h = (status h = ''stopped'' \<longrightarrow> currentRunIdRef h = None)"

text \<open>A sample run of the hook: a run is started, a chunk arrives, and the stream
  reports that it has ended.\<close>

definition completedHook :: Hook where
  "completedHook = hookRun sampleJson (initialHook 0)
     [StartStreaming ''run-1'' None 1, StreamMessage ''A'' 2, StreamMessage ''data: Stream ended'' 3]"

section \<open>The API client (EnhancedAPIClient)\<close>

subsection \<open>Types and default configurations\<close>

datatype RequestPriority = LOW | NORMAL | HIGH | CRITICAL

text \<open>The numbers of the enum: \<^verbatim>\<open>LOW = 1, NORMAL = 2, HIGH = 3, CRITICAL = 4\<close>.\<close>

fun priorityValue :: "RequestPriority \<Rightarrow> nat" where
  "priorityValue LOW = 1"
| "priorityValue NORMAL = 2"
| "priorityValue HIGH = 3"
| "priorityValue CRITICAL = 4"

datatype CircuitState = CLOSED | OPEN | HALF_OPEN

text \<open>A JavaScript \<^verbatim>\<open>Error\<close>: its name, its message and the HTTP status
  \<^verbatim>\<open>performRequest\<close> attaches to it.\<close>

datatype Error = Error (name: string) (error_message: string) (http_status: "nat option")

text \<open>
  A JavaScript number: a finite double (as the real it denotes; the two zeros are not
  told apart), \<^verbatim>\<open>Infinity\<close>, \<^verbatim>\<open>-Infinity\<close> or \<^verbatim>\<open>NaN\<close>.
\<close>

datatype JsNum = Num real | PosInf | NegInf | NaN

text \<open>
  The arithmetic of these numbers. The exact result of an operation on finite numbers
  is rounded to a double by \<open>fl\<close>, which the platform provides (IEEE 754: the nearest
  double, an infinity when the result is out of range); the results for infinities and
  \<^verbatim>\<open>NaN\<close> are those of the language. \<^verbatim>\<open>Math.min\<close>, \<^verbatim>\<open>Math.max\<close> and the comparisons do not
  round.
\<close>

fun jsNeg :: "JsNum \<Rightarrow> JsNum" where
  "jsNeg (Num x) = Num (- x)"
| "jsNeg PosInf = NegInf"
| "jsNeg NegInf = PosInf"
| "jsNeg NaN = NaN"

definition infinityTimes :: "real \<Rightarrow> JsNum" where
  "infinityTimes x = (if x = 0 then NaN else if 0 < x then PosInf else NegInf)"

fun jsMul :: "(real \<Rightarrow> JsNum) \<Rightarrow> JsNum \<Rightarrow> JsNum \<Rightarrow> JsNum" where
  "jsMul fl (Num x) (Num y) = fl (x * y)"
| "jsMul fl (Num x) PosInf = infinityTimes x"
| "jsMul fl (Num x) NegInf = jsNeg (infinityTimes x)"
| "jsMul fl PosInf (Num y) = infinityTimes y"
| "jsMul fl NegInf (Num y) = jsNeg (infinityTimes y)"
| "jsMul fl PosInf PosInf = PosInf"
| "jsMul fl PosInf NegInf = NegInf"
| "jsMul fl NegInf PosInf = NegInf"
| "jsMul fl NegInf NegInf = PosInf"
| "jsMul fl NaN b = NaN"
| "jsMul fl a NaN = NaN"

fun jsAdd :: "(real \<Rightarrow> JsNum) \<Rightarrow> JsNum \<Rightarrow> JsNum \<Rightarrow> JsNum" where
  "jsAdd fl (Num x) (Num y) = fl (x + y)"
| "jsAdd fl (Num x) PosInf = PosInf"
| "jsAdd fl (Num x) NegInf = NegInf"
| "jsAdd fl PosInf (Num y) = PosInf"
| "jsAdd fl NegInf (Num y) = NegInf"
| "jsAdd fl PosInf PosInf = PosInf"
| "jsAdd fl PosInf NegInf = NaN"
| "jsAdd fl NegInf PosInf = NaN"
| "jsAdd fl NegInf NegInf = NegInf"
| "jsAdd fl NaN b = NaN"
| "jsAdd fl a NaN = NaN"

definition jsSub :: "(real \<Rightarrow> JsNum) \<Rightarrow> JsNum \<Rightarrow> JsNum \<Rightarrow> JsNum" where
  "jsSub fl a b = jsAdd fl a (jsNeg b)"

text \<open>\<^verbatim>\<open>Math.pow(base, n)\<close> for an exponent that is an integer.\<close>

definition jsPow :: "(real \<Rightarrow> JsNum) \<Rightarrow> JsNum \<Rightarrow> int \<Rightarrow> JsNum" where
  "jsPow fl base n =
     (if n = 0 then Num 1
      else
        (case base of
           Num x \<Rightarrow> if x = 0 \<and> n < 0 then PosInf else fl (power_int x n)
         | PosInf \<Rightarrow> if 0 < n then PosInf else Num 0
         | NegInf \<Rightarrow> if 0 < n then (if even n then PosInf else NegInf) else Num 0
         | NaN \<Rightarrow> NaN))"

text \<open>\<^verbatim>\<open>a <= b\<close> and \<^verbatim>\<open>a < b\<close>: false when an operand is \<^verbatim>\<open>NaN\<close>.\<close>

fun jsLe :: "JsNum \<Rightarrow> JsNum \<Rightarrow> bool" where
  "jsLe (Num x) (Num y) = (x \<le> y)"
| "jsLe (Num x) PosInf = True"
| "jsLe (Num x) NegInf = False"
| "jsLe PosInf (Num y) = False"
| "jsLe NegInf (Num y) = True"
| "jsLe PosInf PosInf = True"
| "jsLe PosInf NegInf = False"
| "jsLe NegInf PosInf = True"
| "jsLe NegInf NegInf = True"
| "jsLe NaN b = False"
| "jsLe a NaN = False"

definition jsLt :: "JsNum \<Rightarrow> JsNum \<Rightarrow> bool" where
  "jsLt a b = (jsLe a b \<and> a \<noteq> b)"

text \<open>\<^verbatim>\<open>Math.min(a, b)\<close> and \<^verbatim>\<open>Math.max(a, b)\<close>: \<^verbatim>\<open>NaN\<close> when an argument is.\<close>

definition jsMin :: "JsNum \<Rightarrow> JsNum \<Rightarrow> JsNum" where
  "jsMin a b = (if a = NaN \<or> b = NaN then NaN else if jsLe a b then a else b)"

definition jsMax :: "JsNum \<Rightarrow> JsNum \<Rightarrow> JsNum" where
  "jsMax a b = (if a = NaN \<or> b = NaN then NaN else if jsLe a b then b else a)"

text \<open>
  How a call ends: it returns a value, it throws, or it never settles (a promise that
  stays pending, a function that does not return). What is thrown is an error object.
\<close>

datatype 'a Completion = Returns 'a | Throws Error | Pending

text \<open>
  The field \<^verbatim>\<open>retryCondition?\<close> of a retry configuration: the key is absent, it is
  present with the value \<^verbatim>\<open>undefined\<close>, or it holds a function. The function is the
  caller's: it may throw and it may not return. The five other fields are numbers (one
  that held \<^verbatim>\<open>undefined\<close> would act as \<^verbatim>\<open>NaN\<close> in every operation applied to it
  below).
\<close>

datatype RetryCondition = Absent | Undefined | Cond "Error \<Rightarrow> int \<Rightarrow> bool Completion"

record RetryConfig =
  maxAttempts :: JsNum
  baseDelay :: JsNum
  maxDelay :: JsNum
  exponentialBase :: JsNum
  jitterFactor :: JsNum
  retryCondition :: RetryCondition

record RequestConfig =
  http_method :: string
  body :: "string option"
  timeout :: "nat option"
  req_priority :: "RequestPriority option"
  retryConfig :: "RetryConfig option"
  cacheKey :: "string option"
  optimistic :: bool

record QueuedRequest =
  rid :: string
  url :: string
  config :: RequestConfig
  priority :: RequestPriority
  queuedAt :: nat

record CircuitBreakerState =
  state :: CircuitState
  failureCount :: nat
  lastFailureTime :: nat
  successCount :: nat

definition defaultRetryCondition :: "Error \<Rightarrow> int \<Rightarrow> bool" where
  "defaultRetryCondition e attempt =
     (if name e = ''NetworkError'' \<or> name e = ''TimeoutError'' then True
      else (case http_status e of
              Some st \<Rightarrow> st \<ge> 500 \<or> st = 429
            | None \<Rightarrow> attempt < 2))"

text \<open>The literal \<^verbatim>\<open>0.1\<close> is the double \<open>3602879701896397 / 2 ^ 55\<close>.\<close>

definition DEFAULT_RETRY_CONFIG :: RetryConfig where
  "DEFAULT_RETRY_CONFIG =
     \<lparr> maxAttempts = Num 3, baseDelay = Num 1000, maxDelay = Num 30000,
       exponentialBase = Num 2,
       jitterFactor = Num (3602879701896397 / 36028797018963968),
       retryCondition = Cond (\<lambda>e attempt. Returns (defaultRetryCondition e attempt)) \<rparr>"

definition failureThreshold :: nat where
  "failureThreshold = 5"

definition recoveryTimeout :: nat where
  "recoveryTimeout = 30000"

text \<open>
  The client. An in-flight request is its id mapped to its promise, a promise being
  modelled by a number that identifies it. The request metrics (latency averages) are
  left out: no operation below reads them.
\<close>

record Client =
  inFlightRequests :: "string \<rightharpoonup> nat"
  circuitBreakers :: "string \<rightharpoonup> CircuitBreakerState"
  requestQueue :: "QueuedRequest list"
  isOnline :: bool

definition newClient :: "bool \<Rightarrow> Client" where
  "newClient online =
     \<lparr> inFlightRequests = Map.empty, circuitBreakers = Map.empty, requestQueue = [],
       isOnline = online \<rparr>"

text \<open>
  What the client takes from the platform: \<^verbatim>\<open>btoa\<close>, \<^verbatim>\<open>JSON.stringify\<close> of a request
  body, the path segments \<^verbatim>\<open>new URL(url).pathname.split('/')\<close> (\<open>None\<close> where the
  constructor throws), the constant \<^verbatim>\<open>API_URL\<close>, and the rounding \<open>fl\<close> of the
  arithmetic.
\<close>

record Platform =
  btoa :: "string \<Rightarrow> string"
  stringify :: "string option \<Rightarrow> string"
  pathSegments :: "string \<Rightarrow> string list option"
  API_URL :: string
  fl :: "real \<Rightarrow> JsNum"

subsection \<open>Request ids and endpoints\<close>

definition isAlphaNum :: "char \<Rightarrow> bool" where
  "isAlphaNum c =
     (c \<in> set ''abcdefghijklmnopqrstuvwxyzABCDEFGHIJKLMNOPQRSTUVWXYZ0123456789'')"

definition generateRequestId :: "Platform \<Rightarrow> string \<Rightarrow> RequestConfig \<Rightarrow> string" where
  "generateRequestId P u cfg =
     (let key = (if truthy (cacheKey cfg) then the (cacheKey cfg)
                 else http_method cfg @ '':'' @ u @ '':'' @ stringify P (body cfg))
      in filter isAlphaNum (btoa P key))"

fun joinSlash :: "string list \<Rightarrow> string" where
  "joinSlash [] = []"
| "joinSlash [x] = x"
| "joinSlash (x # y # ys) = x @ ''/'' @ joinSlash (y # ys)"

definition extractEndpoint :: "Platform \<Rightarrow> string \<Rightarrow> string" where
  "extractEndpoint P u =
     (case pathSegments P u of
        None \<Rightarrow> u
      | Some parts \<Rightarrow> joinSlash (take 2 (filter (\<lambda>x. x \<noteq> []) parts)))"

subsection \<open>The circuit breaker\<close>

definition freshBreaker :: CircuitBreakerState where
  "freshBreaker = \<lparr> state = CLOSED, failureCount = 0, lastFailureTime = 0, successCount = 0 \<rparr>"

definition getCircuitBreaker :: "string \<Rightarrow> Client \<Rightarrow> CircuitBreakerState \<times> Client" where
  "getCircuitBreaker endpoint c =
     (case circuitBreakers c endpoint of
        Some cb \<Rightarrow> (cb, c)
      | None \<Rightarrow> (freshBreaker, c\<lparr> circuitBreakers := (circuitBreakers c)(endpoint \<mapsto> freshBreaker) \<rparr>))"

text \<open>What \<^verbatim>\<open>recordSuccess\<close> does to the breaker object it looked up.\<close>

definition successUpdate :: "CircuitBreakerState \<Rightarrow> CircuitBreakerState" where
  "successUpdate cb =
     (let cb1 = cb\<lparr> successCount := successCount cb + 1 \<rparr> in
      if state cb1 = HALF_OPEN then
        (if successCount cb1 \<ge> 3 then cb1\<lparr> state := CLOSED, failureCount := 0 \<rparr> else cb1)
      else cb1)"

definition recordSuccess :: "string \<Rightarrow> Client \<Rightarrow> Client" where
  "recordSuccess endpoint c =
     (case getCircuitBreaker endpoint c of
        (cb, c1) \<Rightarrow> c1\<lparr> circuitBreakers := (circuitBreakers c1)(endpoint \<mapsto> successUpdate cb) \<rparr>)"

text \<open>
  What \<^verbatim>\<open>recordFailure\<close> does to the breaker object at time \<open>now\<close>, and whether it
  schedules the recovery timer: \<open>Some d\<close> for \<^verbatim>\<open>setTimeout(..., d)\<close>.
\<close>

definition failureUpdate :: "nat \<Rightarrow> CircuitBreakerState \<Rightarrow> CircuitBreakerState \<times> nat option" where
  "failureUpdate now cb =
     (let cb1 = cb\<lparr> failureCount := failureCount cb + 1, lastFailureTime := now \<rparr> in
      if state cb1 = CLOSED \<and> failureCount cb1 \<ge> failureThreshold
      then (cb1\<lparr> state := OPEN \<rparr>, Some recoveryTimeout)
      else (cb1, None))"

definition recordFailure :: "string \<Rightarrow> nat \<Rightarrow> Client \<Rightarrow> Client \<times> nat option" where
  "recordFailure endpoint now c =
     (case getCircuitBreaker endpoint c of
        (cb, c1) \<Rightarrow>
          (case failureUpdate now cb of
             (cb', timer) \<Rightarrow>
               (c1\<lparr> circuitBreakers := (circuitBreakers c1)(endpoint \<mapsto> cb') \<rparr>, timer)))"

text \<open>
  The callback of the recovery timer. It holds the breaker object; the model keeps one
  object for each endpoint (\<^verbatim>\<open>reset\<close>, which would drop the objects, is not modelled),
  so the callback acts on the entry of the endpoint.
\<close>

definition recoveryUpdate :: "CircuitBreakerState \<Rightarrow> CircuitBreakerState" where
  "recoveryUpdate cb =
     (if state cb = OPEN then cb\<lparr> state := HALF_OPEN, successCount := 0 \<rparr> else cb)"

definition recoveryCallback :: "string \<Rightarrow> Client \<Rightarrow> Client" where
  "recoveryCallback endpoint c =
     (case circuitBreakers c endpoint of
        None \<Rightarrow> c
      | Some cb \<Rightarrow> c\<lparr> circuitBreakers := (circuitBreakers c)(endpoint \<mapsto> recoveryUpdate cb) \<rparr>)"

text \<open>The life of one breaker object as the list of what happens to it.\<close>

datatype BreakerEvent = Success | Failure nat | RecoveryTimer

fun breakerStep :: "CircuitBreakerState \<Rightarrow> BreakerEvent \<Rightarrow> CircuitBreakerState" where
  "breakerStep cb Success = successUpdate cb"
| "breakerStep cb (Failure now) = fst (failureUpdate now cb)"
| "breakerStep cb RecoveryTimer = recoveryUpdate cb"

definition breakerRun :: "CircuitBreakerState \<Rightarrow> BreakerEvent list \<Rightarrow> CircuitBreakerState" where
  "breakerRun cb evs = foldl breakerStep cb evs"

subsection \<open>Retry delay and the retry loop\<close>

text \<open>
  \<^verbatim>\<open>calculateRetryDelay(attempt, config)\<close>, with \<open>r\<close> the value of \<^verbatim>\<open>Math.random()\<close>.
\<close>

definition calculateRetryDelay :: "Platform \<Rightarrow> int \<Rightarrow> RetryConfig \<Rightarrow> real \<Rightarrow> JsNum" where
  "calculateRetryDelay P attempt cfg r =
     (let exponentialDelay =
            jsMul (fl P) (baseDelay cfg) (jsPow (fl P) (exponentialBase cfg) (attempt - 1));
          jitter =
            jsMul (fl P) (jsMul (fl P) exponentialDelay (jitterFactor cfg))
              (jsSub (fl P) (jsMul (fl P) (Num r) (Num 2)) (Num 1));
          totalDelay = jsMin (jsAdd (fl P) exponentialDelay jitter) (maxDelay cfg)
      in jsMax totalDelay (Num 0))"

text \<open>
  \<^verbatim>\<open>{ ...DEFAULT_RETRY_CONFIG, ...config.retryConfig }\<close>: the five numbers of a given
  configuration replace the defaults, and so does its \<^verbatim>\<open>retryCondition\<close> when the key is
  present, also with the value \<^verbatim>\<open>undefined\<close>.
\<close>

definition mergedRetryConfig :: "RequestConfig \<Rightarrow> RetryConfig" where
  "mergedRetryConfig cfg =
     (case retryConfig cfg of
        None \<Rightarrow> DEFAULT_RETRY_CONFIG
      | Some rc \<Rightarrow>
          (case retryCondition rc of
             Absent \<Rightarrow> rc\<lparr> retryCondition := retryCondition DEFAULT_RETRY_CONFIG \<rparr>
           | Undefined \<Rightarrow> rc
           | Cond f \<Rightarrow> rc))"

definition fallbackError :: Error where
  "fallbackError = Error ''Error'' ''Request failed after all retry attempts'' None"

text \<open>The \<^verbatim>\<open>TypeError\<close> of a call of \<^verbatim>\<open>undefined\<close> (the text of the message is that
  of V8).\<close>

definition notAFunctionError :: Error where
  "notAFunctionError =
     Error ''TypeError'' ''retryConfig.retryCondition is not a function'' None"

text \<open>
  \<^verbatim>\<open>attempt < retryConfig.maxAttempts && retryConfig.retryCondition!(lastError, attempt)\<close>:
  the condition is called only when the comparison holds.
\<close>

definition shouldRetry :: "RetryConfig \<Rightarrow> Error \<Rightarrow> int \<Rightarrow> bool Completion" where
  "shouldRetry rc e attempt =
     (if jsLt (Num (of_int attempt)) (maxAttempts rc) then
        (case retryCondition rc of
           Cond f \<Rightarrow> f e attempt
         | Undefined \<Rightarrow> Throws notAFunctionError
         | Absent \<Rightarrow> Throws notAFunctionError)
      else Returns False)"

text \<open>\<^verbatim>\<open>attempt++\<close> on a double: from \<open>2 ^ 53\<close> on, adding 1 gives the same number.\<close>

definition nextAttempt :: "int \<Rightarrow> int" where
  "nextAttempt attempt = (if attempt < 9007199254740992 then attempt + 1 else attempt)"

text \<open>
  The outcome of \<^verbatim>\<open>executeRequest\<close>: what it returns or throws (\<open>Pending\<close> when it awaits
  something that never settles), how many times it called \<^verbatim>\<open>performRequest\<close>, and the
  delays it computed, in order.
\<close>

record 'r Execution =
  outcome :: "'r Completion"
  attempts :: nat
  delays :: "JsNum list"

text \<open>
  The \<^verbatim>\<open>for\<close> loop of \<^verbatim>\<open>executeRequest\<close>, entered with the loop variable \<open>attempt\<close> after
  \<open>made\<close> calls of \<^verbatim>\<open>performRequest\<close>. \<open>perform k\<close> is what the \<open>k\<close>-th call of
  \<^verbatim>\<open>performRequest\<close> does, \<open>rnd k\<close> the random number drawn for the delay after it. The
  sleep between two calls always ends (its timer fires). The loop can run for ever: the
  first argument bounds the number of iterations, and the result is \<open>None\<close> when the
  loop is still running after that many.
\<close>

fun retryLoop ::
  "nat \<Rightarrow> Platform \<Rightarrow> RetryConfig \<Rightarrow> (nat \<Rightarrow> 'r Completion) \<Rightarrow> (nat \<Rightarrow> real) \<Rightarrow> nat \<Rightarrow> int
     \<Rightarrow> Error option \<Rightarrow> 'r Execution option"
where
  "retryLoop 0 P rc perform rnd made attempt lastError = None"
| "retryLoop (Suc fuel) P rc perform rnd made attempt lastError =
     (if jsLe (Num (of_int attempt)) (maxAttempts rc) then
        (case perform (made + 1) of
           Returns response \<Rightarrow>
             Some \<lparr> outcome = Returns response, attempts = made + 1, delays = [] \<rparr>
         | Pending \<Rightarrow> Some \<lparr> outcome = Pending, attempts = made + 1, delays = [] \<rparr>
         | Throws e \<Rightarrow>
             (case shouldRetry rc e attempt of
                Returns retry \<Rightarrow>
                  if retry then
                    (case retryLoop fuel P rc perform rnd (made + 1) (nextAttempt attempt) (Some e) of
                       None \<Rightarrow> None
                     | Some rest \<Rightarrow>
                         Some (rest\<lparr> delays :=
                                 calculateRetryDelay P attempt rc (rnd (made + 1)) # delays rest \<rparr>))
                  else Some \<lparr> outcome = Throws e, attempts = made + 1, delays = [] \<rparr>
              | Throws e' \<Rightarrow> Some \<lparr> outcome = Throws e', attempts = made + 1, delays = [] \<rparr>
              | Pending \<Rightarrow> Some \<lparr> outcome = Pending, attempts = made + 1, delays = [] \<rparr>))
      else Some \<lparr> outcome = Throws (orElse lastError fallbackError), attempts = made, delays = [] \<rparr>)"

declare retryLoop.simps [simp del]

definition executeRequest ::
  "nat \<Rightarrow> Platform \<Rightarrow> RequestConfig \<Rightarrow> (nat \<Rightarrow> 'r Completion) \<Rightarrow> (nat \<Rightarrow> real)
     \<Rightarrow> 'r Execution option" where
  "executeRequest fuel P cfg perform rnd =
     retryLoop fuel P (mergedRetryConfig cfg) perform rnd 0 1 None"

subsection \<open>performRequest in time\<close>

text \<open>
  \<^verbatim>\<open>performRequest\<close> sets a timer that aborts its \<^verbatim>\<open>AbortController\<close> after
  \<^verbatim>\<open>config.timeout || 30000\<close> ms, awaits \<^verbatim>\<open>supabase.auth.getSession()\<close>, then awaits
  \<^verbatim>\<open>fetch\<close> with the signal of the controller and reads the body. The model follows one
  call in time, in ms from its start. What the outside does is a parameter: when the
  session lookup settles (\<open>None\<close>: never), how long the fetch with the reading of the
  body would take if it is not aborted (\<open>None\<close>: for ever), and what it would yield. Of
  the platform the model takes that the timer fires at its delay, that an abort rejects
  a pending fetch at once, that a fetch started with an aborted signal is rejected at
  once, and that nothing passes the signal to the session lookup (the source does
  not).
\<close>

datatype FetchResult =
    Body string
  | HttpStatus nat string
  | FetchTypeError
  | OtherError Error

record Network =
  sessionTime :: "nat option"
  fetchTime :: "nat option"
  fetchResult :: FetchResult

definition timeoutOf :: "RequestConfig \<Rightarrow> nat" where
  "timeoutOf cfg = (case timeout cfg of None \<Rightarrow> 30000 | Some t \<Rightarrow> if t = 0 then 30000 else t)"

definition timeoutError :: Error where
  "timeoutError = Error ''TimeoutError'' ''Request timeout'' None"

text \<open>What a fetch that was not aborted makes \<^verbatim>\<open>performRequest\<close> return or throw: the
  body; for a response that is not ok, an error with the status (\<open>HttpStatus st line\<close>,
  the text \<open>line\<close> standing for \<^verbatim>\<open>${response.status}: ${response.statusText}\<close>);
  \<^verbatim>\<open>NetworkError\<close> for a \<^verbatim>\<open>TypeError\<close> of \<^verbatim>\<open>fetch\<close>; any other error as it is.\<close>

fun fetchOutcome :: "FetchResult \<Rightarrow> Error + string" where
  "fetchOutcome (Body b) = Inr b"
| "fetchOutcome (HttpStatus st line) =
     Inl (Error ''Error'' (''HTTP '' @ line) (Some st))"
| "fetchOutcome FetchTypeError = Inl (Error ''NetworkError'' ''Network error'' None)"
| "fetchOutcome (OtherError e) = Inl e"

text \<open>The time at which the call settles and its outcome; \<open>None\<close> when it never
  settles.\<close>

definition performRequest :: "RequestConfig \<Rightarrow> Network \<Rightarrow> (nat \<times> (Error + string)) option" where
  "performRequest cfg net =
     (case sessionTime net of
        None \<Rightarrow> None
      | Some d1 \<Rightarrow>
          if timeoutOf cfg \<le> d1 then Some (d1, Inl timeoutError)
          else
            (case fetchTime net of
               None \<Rightarrow> Some (timeoutOf cfg, Inl timeoutError)
             | Some d2 \<Rightarrow>
                 if d1 + d2 < timeoutOf cfg then Some (d1 + d2, fetchOutcome (fetchResult net))
                 else Some (timeoutOf cfg, Inl timeoutError)))"

text \<open>How the call ends for the loop of \<^verbatim>\<open>executeRequest\<close>, which awaits it.\<close>

definition attemptOutcome :: "RequestConfig \<Rightarrow> Network \<Rightarrow> string Completion" where
  "attemptOutcome cfg net =
     (case performRequest cfg net of
        None \<Rightarrow> Pending
      | Some (t, Inl e) \<Rightarrow> Throws e
      | Some (t, Inr response) \<Rightarrow> Returns response)"

subsection \<open>The offline queue\<close>

text \<open>\<^verbatim>\<open>findIndex\<close> with \<open>None\<close> for \<open>-1\<close>.\<close>

fun findIndex :: "('a \<Rightarrow> bool) \<Rightarrow> 'a list \<Rightarrow> nat option" where
  "findIndex P [] = None"
| "findIndex P (x # xs) =
     (if P x then Some 0 else (case findIndex P xs of None \<Rightarrow> None | Some i \<Rightarrow> Some (i + 1)))"

text \<open>\<^verbatim>\<open>xs.splice(i, 0, x)\<close> for an index \<open>i\<close> of the list.\<close>

definition splice_insert :: "nat \<Rightarrow> 'a \<Rightarrow> 'a list \<Rightarrow> 'a list" where
  "splice_insert i x xs = take i xs @ [x] @ drop i xs"

definition enqueue :: "QueuedRequest \<Rightarrow> QueuedRequest list \<Rightarrow> QueuedRequest list" where
  "enqueue queuedRequest q =
     (case findIndex (\<lambda>req. priorityValue (priority req) < priorityValue (priority queuedRequest)) q of
        None \<Rightarrow> q @ [queuedRequest]
      | Some insertIndex \<Rightarrow> splice_insert insertIndex queuedRequest q)"

definition queueRequest :: "Platform \<Rightarrow> string \<Rightarrow> RequestConfig \<Rightarrow> nat \<Rightarrow> Client \<Rightarrow> Client" where
  "queueRequest P u cfg now c =
     (let queuedRequest =
            \<lparr> rid = generateRequestId P u cfg, url = u, config = cfg,
              priority = orElse (req_priority cfg) NORMAL, queuedAt = now \<rparr>
      in c\<lparr> requestQueue := enqueue queuedRequest (requestQueue c) \<rparr>)"

text \<open>
  One tick of the queue processor (the \<^verbatim>\<open>setInterval\<close> callback): nothing when offline
  or when the queue is empty; otherwise the first request is taken off the queue and
  executed. The result is the new client and the request taken with its execution.
\<close>

definition processQueue ::
  "nat \<Rightarrow> Platform \<Rightarrow> (nat \<Rightarrow> 'r Completion) \<Rightarrow> (nat \<Rightarrow> real) \<Rightarrow> Client
     \<Rightarrow> Client \<times> (QueuedRequest \<times> 'r Execution option) option" where
  "processQueue fuel P perform rnd c =
     (if \<not> isOnline c \<or> requestQueue c = [] then (c, None)
      else
        (case requestQueue c of
           [] \<Rightarrow> (c, None)
         | request # rest \<Rightarrow>
             (c\<lparr> requestQueue := rest \<rparr>,
              Some (request, executeRequest fuel P (config request) perform rnd))))"

text \<open>The queue under a list of operations: requests queued and processor ticks that
  find the client online.\<close>

datatype QueueOp = Enqueue QueuedRequest | Dequeue

fun queueStep :: "QueuedRequest list \<Rightarrow> QueueOp \<Rightarrow> QueuedRequest list" where
  "queueStep q (Enqueue r) = enqueue r q"
| "queueStep q Dequeue = (case q of [] \<Rightarrow> [] | request # rest \<Rightarrow> rest)"

definition queueRun :: "QueuedRequest list \<Rightarrow> QueueOp list \<Rightarrow> QueuedRequest list" where
  "queueRun q ops = foldl queueStep q ops"

subsection \<open>request\<close>

text \<open>
  \<^verbatim>\<open>request\<close> up to its \<^verbatim>\<open>await\<close>: the request is answered by the promise of a
  request in flight, refused by the circuit breaker, queued, or started.
\<close>

datatype Admission =
    Deduplicated nat
  | Thrown Error
  | Queued
  | Started

definition circuitBreakerError :: "string \<Rightarrow> Error" where
  "circuitBreakerError endpoint =
     Error ''CircuitBreakerError'' (''Circuit breaker open for '' @ endpoint) None"

definition fullUrlOf :: "Platform \<Rightarrow> string \<Rightarrow> string" where
  "fullUrlOf P u = (if startsWith u ''http'' then u else API_URL P @ u)"

text \<open>\<open>promise\<close> identifies the promise \<^verbatim>\<open>executeRequest\<close> returns when the request is
  started; \<open>now\<close> is \<^verbatim>\<open>Date.now()\<close>.\<close>

definition request_begin ::
  "Platform \<Rightarrow> string \<Rightarrow> RequestConfig \<Rightarrow> nat \<Rightarrow> nat \<Rightarrow> Client \<Rightarrow> Admission \<times> Client" where
  "request_begin P u cfg promise now c =
     (let requestId = generateRequestId P u cfg;
          fullUrl = fullUrlOf P u
      in
      if requestId \<in> dom (inFlightRequests c) \<and> \<not> optimistic cfg
      then (Deduplicated (the (inFlightRequests c requestId)), c)
      else
        let endpoint = extractEndpoint P fullUrl in
        (case getCircuitBreaker endpoint c of
           (circuitBreaker, c1) \<Rightarrow>
             if state circuitBreaker = OPEN then (Thrown (circuitBreakerError endpoint), c1)
             else if \<not> isOnline c1 then (Queued, queueRequest P fullUrl cfg now c1)
             else (Started, c1\<lparr> inFlightRequests := (inFlightRequests c1)(requestId \<mapsto> promise) \<rparr>)))"

text \<open>\<^verbatim>\<open>request\<close> after the \<^verbatim>\<open>await\<close>, for a request that was started: the result is
  recorded on the breaker and the request leaves the in-flight map.\<close>

definition request_end ::
  "Platform \<Rightarrow> string \<Rightarrow> RequestConfig \<Rightarrow> Error + 'r \<Rightarrow> nat \<Rightarrow> Client \<Rightarrow> Client \<times> nat option" where
  "request_end P u cfg result now c =
     (let requestId = generateRequestId P u cfg;
          endpoint = extractEndpoint P (fullUrlOf P u)
      in
      (case (case result of
               Inr response \<Rightarrow> (recordSuccess endpoint c, None)
             | Inl e \<Rightarrow> recordFailure endpoint now c) of
         (c1, timer) \<Rightarrow> (c1\<lparr> inFlightRequests := (inFlightRequests c1)(requestId := None) \<rparr>, timer)))"

text \<open>
  A whole call of \<^verbatim>\<open>request\<close> with nothing else running in between: what the caller
  gets, how many times \<^verbatim>\<open>performRequest\<close> was called for it, the client afterwards,
  and the recovery timer scheduled, if any. \<open>now\<close> is the time of the call, \<open>now'\<close> the
  time at which a failure is recorded. A request whose execution does not settle (it
  awaits something that stays pending, or the loop is still running after \<open>fuel\<close>
  attempts) stays in flight.
\<close>

datatype 'r Answer = Settled "Error + 'r" | SharedPromise nat | PendingInQueue | Unsettled

definition request ::
  "Platform \<Rightarrow> string \<Rightarrow> RequestConfig \<Rightarrow> nat \<Rightarrow> nat \<Rightarrow> (nat \<Rightarrow> 'r Completion) \<Rightarrow> (nat \<Rightarrow> real)
     \<Rightarrow> nat \<Rightarrow> nat \<Rightarrow> Client \<Rightarrow> 'r Answer \<times> nat \<times> Client \<times> nat option" where
  "request P u cfg promise fuel perform rnd now now' c =
     (case request_begin P u cfg promise now c of
        (Deduplicated p, c1) \<Rightarrow> (SharedPromise p, 0, c1, None)
      | (Thrown e, c1) \<Rightarrow> (Settled (Inl e), 0, c1, None)
      | (Queued, c1) \<Rightarrow> (PendingInQueue, 0, c1, None)
      | (Started, c1) \<Rightarrow>
          (case executeRequest fuel P cfg perform rnd of
             None \<Rightarrow> (Unsettled, fuel, c1, None)
           | Some ex \<Rightarrow>
               (case outcome ex of
                  Pending \<Rightarrow> (Unsettled, attempts ex, c1, None)
                | Returns response \<Rightarrow>
                    (case request_end P u cfg (Inr response) now' c1 of
                       (c2, timer) \<Rightarrow> (Settled (Inr response), attempts ex, c2, timer))
                | Throws e \<Rightarrow>
                    (case request_end P u cfg (Inl e :: Error + 'r) now' c1 of
                       (c2, timer) \<Rightarrow> (Settled (Inl e), attempts ex, c2, timer)))))"

text \<open>The numeric priority of a queued request, and a queue in non-increasing priority
  order.\<close>

definition pv :: "QueuedRequest \<Rightarrow> nat" where
  "pv r = priorityValue (priority r)"

definition queueOrdered :: "QueuedRequest list \<Rightarrow> bool" where
  "queueOrdered q = sorted_wrt (\<lambda>a b. pv b \<le> pv a) q"

text \<open>The queue after the requests \<open>rs\<close> were queued one after the other, starting
  from the empty queue.\<close>

definition enqueueAll :: "QueuedRequest list \<Rightarrow> QueuedRequest list" where
  "enqueueAll rs = queueRun [] (map Enqueue rs)"

subsection \<open>The client over time\<close>

text \<open>
  What happens to a client, one step at a time: a call of \<^verbatim>\<open>request\<close> runs up to its
  \<^verbatim>\<open>await\<close>; a started request settles; the queue processor ticks; a recovery timer
  fires; the browser reports the network online or offline. Calls of \<^verbatim>\<open>request\<close>
  interleave: other steps may stand between the two halves of one call.
\<close>

datatype 'r ClientEvent =
    Begin string RequestConfig nat nat
  | Settle string RequestConfig "Error + 'r" nat
  | Tick nat "nat \<Rightarrow> 'r Completion" "nat \<Rightarrow> real"
  | Recovery string
  | NetworkOnline
  | NetworkOffline

fun clientStep :: "Platform \<Rightarrow> Client \<Rightarrow> 'r ClientEvent \<Rightarrow> Client" where
  "clientStep P c (Begin u cfg promise now) = snd (request_begin P u cfg promise now c)"
| "clientStep P c (Settle u cfg result now) = fst (request_end P u cfg result now c)"
| "clientStep P c (Tick fuel perform rnd) = fst (processQueue fuel P perform rnd c)"
| "clientStep P c (Recovery endpoint) = recoveryCallback endpoint c"
| "clientStep P c NetworkOnline = c\<lparr> isOnline := True \<rparr>"
| "clientStep P c NetworkOffline = c\<lparr> isOnline := False \<rparr>"

definition clientRun :: "Platform \<Rightarrow> Client \<Rightarrow> 'r ClientEvent list \<Rightarrow> Client" where
  "clientRun P c evs = foldl (clientStep P) c evs"

text \<open>Sample data for the examples.\<close>

definition sampleConfig :: RequestConfig where
  "sampleConfig =
     \<lparr> http_method = ''GET'', body = None, timeout = None, req_priority = None,
       retryConfig = None, cacheKey = None, optimistic = False \<rparr>"

definition sampleRequest :: "string \<Rightarrow> string \<Rightarrow> RequestPriority \<Rightarrow> nat \<Rightarrow> QueuedRequest" where
  "sampleRequest i u p t =
     \<lparr> rid = i, url = u, config = sampleConfig\<lparr> req_priority := Some p \<rparr>,
       priority = p, queuedAt = t \<rparr>"

text \<open>A platform for the examples: \<^verbatim>\<open>btoa\<close> is replaced by the identity, a body prints
  as itself, the path of a URL is the URL split at the slashes, and the arithmetic is
  exact up to the range of the doubles (the examples compute doubles only).\<close>

fun splitSlash :: "string \<Rightarrow> string \<Rightarrow> string list" where
  "splitSlash acc [] = [rev acc]"
| "splitSlash acc (c # cs) =
     (if c = CHR ''/'' then rev acc # splitSlash [] cs else splitSlash (c # acc) cs)"

definition samplePlatform :: Platform where
  "samplePlatform =
     \<lparr> btoa = (\<lambda>s. s), stringify = (\<lambda>b. orElse b ''{}''),
       pathSegments = (\<lambda>u. Some (splitSlash [] u)), API_URL = [],
       fl = (\<lambda>x. if 2 ^ 1024 \<le> x then PosInf else if x \<le> - (2 ^ 1024) then NegInf else Num x) \<rparr>"

subsection \<open>Notions used to state the properties of the circuit breaker\<close>


fun isSuccess :: "BreakerEvent \<Rightarrow> bool" where
  "isSuccess Success = True"
| "isSuccess ev = False"





definition breakerOf :: "Client \<Rightarrow> string \<Rightarrow> CircuitBreakerState" where
  "breakerOf c endpoint = fst (getCircuitBreaker endpoint c)"



text \<open>Sample runs of the client: a call that fails with a network error, a call that
  succeeds, a run that opens the breaker of the endpoint \<open>api/a\<close> while one request to
  it is still in flight, and a run that leaves that breaker half open.\<close>

definition networkError :: Error where
  "networkError = Error ''NetworkError'' ''Network error'' None"

definition failedCall :: "string \<Rightarrow> nat \<Rightarrow> unit ClientEvent list" where
  "failedCall u now = [Begin u sampleConfig 1 now, Settle u sampleConfig (Inl networkError) now]"

definition goodCall :: "string \<Rightarrow> nat \<Rightarrow> unit ClientEvent list" where
  "goodCall u now = [Begin u sampleConfig 1 now, Settle u sampleConfig (Inr ()) now]"





subsection \<open>Notions used to state the properties of the retry loop\<close>

text \<open>
  The value of the loop variable \<open>attempt\<close> at the \<open>k\<close>-th call of \<^verbatim>\<open>performRequest\<close>:
  \<open>k\<close>, up to \<open>2 ^ 53\<close>.
\<close>

definition attemptNumber :: "nat \<Rightarrow> int" where
  "attemptNumber k = min (int k) 9007199254740992"

text \<open>
  What the loop ends with when the call that ended as \<open>result\<close>, made with the loop
  variable at \<open>attempt\<close>, is its last: the response; the error of the call; what the
  test for a retry threw; nothing, when the call or the test never settles.
\<close>

definition finalOutcome :: "RetryConfig \<Rightarrow> 'r Completion \<Rightarrow> int \<Rightarrow> 'r Completion" where
  "finalOutcome rc result attempt =
     (case result of
        Returns response \<Rightarrow> Returns response
      | Pending \<Rightarrow> Pending
      | Throws e \<Rightarrow>
          (case shouldRetry rc e attempt of
             Returns retry \<Rightarrow> Throws e
           | Throws e' \<Rightarrow> Throws e'
           | Pending \<Rightarrow> Pending))"

text \<open>The call threw and the test for a retry said yes.\<close>

definition retried :: "RetryConfig \<Rightarrow> 'r Completion \<Rightarrow> int \<Rightarrow> bool" where
  "retried rc result attempt =
     (case result of
        Throws e \<Rightarrow> shouldRetry rc e attempt = Returns True
      | other \<Rightarrow> False)"

text \<open>A sample behaviour of \<^verbatim>\<open>performRequest\<close>: two network errors, then a response.\<close>

definition flakyPerform :: "nat \<Rightarrow> string Completion" where
  "flakyPerform k = (if k < 3 then Throws networkError else Returns ''ok'')"

section \<open>The run lock\<close>

text \<open>
  Modelled from the spec: the RunLock component (its record, \<^verbatim>\<open>acquire\<close>, \<^verbatim>\<open>renew\<close>,
  \<^verbatim>\<open>release\<close> and the expiry of a lock at the end of its TTL) and the claim attempts of
  the schedulers. The sources hold no code for them. The shared store is the list of
  the locks written to it and a clock; every operation is one atomic step on the store
  (the spec: an atomic test-and-set), and concurrent workers are the interleavings of
  their steps. A lock is not expired while the clock is before \<open>expiresAt\<close>; an expired
  lock stays in the store until it is released. \<^verbatim>\<open>renew\<close> is given the TTL to renew
  with.
\<close>

record RunLock =
  runId :: string
  holderId :: string
  acquiredAt :: nat
  expiresAt :: nat

record LockStore =
  locks :: "RunLock list"
  clock :: nat

definition emptyStore :: LockStore where
  "emptyStore = \<lparr> locks = [], clock = 0 \<rparr>"

definition nonExpired :: "nat \<Rightarrow> RunLock \<Rightarrow> bool" where
  "nonExpired now l = (now < expiresAt l)"

text \<open>The non-expired locks of a run in the store.\<close>

definition validLocks :: "string \<Rightarrow> LockStore \<Rightarrow> RunLock list" where
  "validLocks r s = filter (\<lambda>l. runId l = r \<and> nonExpired (clock s) l) (locks s)"

datatype AcquireResult = Lock RunLock | AlreadyHeld

datatype RenewResult = Renewed RunLock | Expired

text \<open>\<^verbatim>\<open>acquire(runId, holderId, ttl)\<close>: no lock is written while a non-expired lock of the
  run exists.\<close>

definition acquire :: "string \<Rightarrow> string \<Rightarrow> nat \<Rightarrow> LockStore \<Rightarrow> AcquireResult \<times> LockStore" where
  "acquire r h ttl s =
     (if validLocks r s \<noteq> [] then (AlreadyHeld, s)
      else
        let l = \<lparr> runId = r, holderId = h, acquiredAt = clock s, expiresAt = clock s + ttl \<rparr>
        in (Lock l, s\<lparr> locks := locks s @ [l] \<rparr>))"

text \<open>\<^verbatim>\<open>renew(lock)\<close>: a lock that is in the store and not expired gets a new expiry.\<close>

definition renew :: "RunLock \<Rightarrow> nat \<Rightarrow> LockStore \<Rightarrow> RenewResult \<times> LockStore" where
  "renew l ttl s =
     (if l \<in> set (locks s) \<and> nonExpired (clock s) l then
        (let l' = l\<lparr> expiresAt := clock s + ttl \<rparr>
         in (Renewed l', s\<lparr> locks := map (\<lambda>x. if x = l then l' else x) (locks s) \<rparr>))
      else (Expired, s))"

text \<open>\<^verbatim>\<open>release(lock)\<close>\<close>

definition release :: "RunLock \<Rightarrow> LockStore \<Rightarrow> LockStore" where
  "release l s = s\<lparr> locks := filter (\<lambda>x. x \<noteq> l) (locks s) \<rparr>"

text \<open>The steps on the store: the three operations, by any worker, and the passing of
  time.\<close>

datatype LockEvent =
    Acquire string string nat
  | Renew RunLock nat
  | Release RunLock
  | Elapse nat

fun lockStep :: "LockStore \<Rightarrow> LockEvent \<Rightarrow> LockStore" where
  "lockStep s (Acquire r h ttl) = snd (acquire r h ttl s)"
| "lockStep s (Renew l ttl) = snd (renew l ttl s)"
| "lockStep s (Release l) = release l s"
| "lockStep s (Elapse d) = s\<lparr> clock := clock s + d \<rparr>"

definition lockRun :: "LockStore \<Rightarrow> LockEvent list \<Rightarrow> LockStore" where
  "lockRun s evs = foldl lockStep s evs"

text \<open>The results of a list of claim attempts made one after the other with no other
  step in between: \<open>N\<close> concurrent attempts in one of their interleavings.\<close>

fun claimAll :: "LockStore \<Rightarrow> (string \<times> string \<times> nat) list \<Rightarrow> AcquireResult list" where
  "claimAll s [] = []"
| "claimAll s ((r, h, ttl) # rest) =
     fst (acquire r h ttl s) # claimAll (snd (acquire r h ttl s)) rest"

fun isLock :: "AcquireResult \<Rightarrow> bool" where
  "isLock (Lock l) = True"
| "isLock AlreadyHeld = False"

definition atMostOne :: "'a list \<Rightarrow> bool" where
  "atMostOne xs = (length xs \<le> 1)"

text \<open>Sample behaviours of the outside: a server that never answers, and a session
  lookup that takes 40 seconds.\<close>

definition hangingNetwork :: Network where
  "hangingNetwork = \<lparr> sessionTime = Some 0, fetchTime = None, fetchResult = Body [] \<rparr>"

definition slowSessionNetwork :: Network where
  "slowSessionNetwork = \<lparr> sessionTime = Some 40000, fetchTime = Some 10, fetchResult = Body ''ok'' \<rparr>"


chapter \<open>Properties\<close>

section \<open>The error history of the stream reader\<close>

lemma length_slice_last: "length (slice_last n xs) = min n (length xs)"
  by (simp add: slice_last_def)

lemma suffix_slice_last: "suffix (slice_last n xs) xs"
  by (simp add: slice_last_def suffix_drop)

lemma errorHistory_emit: "errorHistory (streamState (emit e h)) = errorHistory (streamState h)"
  by (simp add: emit_def)

lemma errorHistory_errorToast:
  "errorHistory (streamState (errorToast ev h)) = errorHistory (streamState h)"
  by (simp add: errorToast_def errorHistory_emit)

lemma errorHistory_addError:
  "isMountedRef h \<Longrightarrow>
   errorHistory (streamState (addError m now h))
     = slice_last 9 (errorHistory (streamState h)) @ [mkErrorEvent m now]"
  by (simp add: addError_def Let_def errorHistory_errorToast errorHistory_emit)

text \<open>
  Claim C9. After an error is recorded (the component is mounted), the error history has
  at most 10 entries, the new event is its last entry, and the entries before it are the
  last nine entries of the previous history in their previous order: a suffix of the
  previous history.
\<close>

theorem addError_history_bounded:
  assumes "isMountedRef h"
  shows "length (errorHistory (streamState (addError m now h))) \<le> 10
    \<and> length (errorHistory (streamState (addError m now h)))
        = min 9 (length (errorHistory (streamState h))) + 1
    \<and> last (errorHistory (streamState (addError m now h))) = mkErrorEvent m now
    \<and> butlast (errorHistory (streamState (addError m now h)))
        = slice_last 9 (errorHistory (streamState h))
    \<and> suffix (butlast (errorHistory (streamState (addError m now h))))
        (errorHistory (streamState h))"
  using assms by (simp add: errorHistory_addError length_slice_last suffix_slice_last)

text \<open>A history that already holds ten events still holds ten after the next error.\<close>

theorem addError_history_bounded_witness:
  "isMountedRef
     ((initialHook 0)\<lparr> streamState := (streamState (initialHook 0))
        \<lparr> errorHistory := replicate 10 (mkErrorEvent ''first'' 1) \<rparr> \<rparr>)
   \<and> length (errorHistory (streamState (addError ''network down'' 7
        ((initialHook 0)\<lparr> streamState := (streamState (initialHook 0))
           \<lparr> errorHistory := replicate 10 (mkErrorEvent ''first'' 1) \<rparr> \<rparr>)))) = 10"
proof -
  let ?h = "(initialHook 0)\<lparr> streamState := (streamState (initialHook 0))
        \<lparr> errorHistory := replicate 10 (mkErrorEvent ''first'' 1) \<rparr> \<rparr>"
  have m: "isMountedRef ?h" by (simp add: initialHook_def)
  have l: "length (errorHistory (streamState ?h)) = 10" by simp
  show ?thesis
    using m addError_history_bounded[OF m, of "''network down''" 7] by (simp only: l) simp
qed

section \<open>The offline request queue\<close>

lemma findIndex_None: "findIndex P xs = None \<longleftrightarrow> (\<forall>x\<in>set xs. \<not> P x)"
  by (induction xs) (auto split: option.splits)

lemma findIndex_Some:
  "findIndex P xs = Some i \<Longrightarrow>
   take i xs = takeWhile (\<lambda>x. \<not> P x) xs \<and> drop i xs = dropWhile (\<lambda>x. \<not> P x) xs"
  by (induction xs arbitrary: i) (auto split: option.splits if_splits)

lemma enqueue_takeWhile:
  "enqueue r q = takeWhile (\<lambda>x. pv r \<le> pv x) q @ [r] @ dropWhile (\<lambda>x. pv r \<le> pv x) q"
proof (cases "findIndex (\<lambda>req. priorityValue (priority req) < priorityValue (priority r)) q")
  case None
  then have all: "\<forall>x\<in>set q. pv r \<le> pv x"
    by (auto simp: findIndex_None pv_def not_less)
  have t: "takeWhile (\<lambda>x. pv r \<le> pv x) q = q"
    using all by (simp add: takeWhile_eq_all_conv)
  have d: "dropWhile (\<lambda>x. pv r \<le> pv x) q = []"
    using all by (simp add: dropWhile_eq_Nil_conv)
  have "enqueue r q = q @ [r]"
    using None by (simp add: enqueue_def)
  then show ?thesis
    by (simp only: t d append_Nil2)
next
  case (Some i)
  from findIndex_Some[OF Some] show ?thesis
    using Some by (simp add: enqueue_def splice_insert_def pv_def not_less)
qed

lemma dropWhile_below:
  assumes "sorted_wrt (\<lambda>a b. pv b \<le> pv a) q"
  shows "\<forall>x\<in>set (dropWhile (\<lambda>x. pv r \<le> pv x) q). pv x < pv r"
  using assms
proof (induction q)
  case Nil
  then show ?case by simp
next
  case (Cons y ys)
  show ?case
  proof (cases "pv r \<le> pv y")
    case True
    then show ?thesis using Cons by simp
  next
    case False
    then have "pv y < pv r" by simp
    moreover have "\<forall>x\<in>set ys. pv x \<le> pv y" using Cons.prems by simp
    ultimately have "\<forall>x\<in>set (y # ys). pv x < pv r" by auto
    then show ?thesis using False by simp
  qed
qed

lemma takeWhile_above: "\<forall>x\<in>set (takeWhile (\<lambda>x. pv r \<le> pv x) q). pv r \<le> pv x"
  by (auto dest: set_takeWhileD)

lemma sorted_wrt_takeWhile_part:
  "sorted_wrt R q \<Longrightarrow> sorted_wrt R (takeWhile P q) \<and> sorted_wrt R (dropWhile P q)"
  by (metis sorted_wrt_append takeWhile_dropWhile_id)

lemma queueOrdered_enqueue:
  assumes "queueOrdered q"
  shows "queueOrdered (enqueue r q)"
proof -
  let ?P = "\<lambda>x. pv r \<le> pv x"
  let ?R = "\<lambda>a b. pv b \<le> pv a"
  have q: "sorted_wrt ?R q" using assms by (simp add: queueOrdered_def)
  have a: "\<forall>x\<in>set (takeWhile ?P q). pv r \<le> pv x" by (rule takeWhile_above)
  have b: "\<forall>x\<in>set (dropWhile ?P q). pv x < pv r" by (rule dropWhile_below[OF q])
  have s1: "sorted_wrt ?R (takeWhile ?P q)" and s2: "sorted_wrt ?R (dropWhile ?P q)"
    using sorted_wrt_takeWhile_part[OF q] by blast+
  have c: "\<forall>x\<in>set (takeWhile ?P q). \<forall>y\<in>set (dropWhile ?P q). pv y \<le> pv x"
  proof (intro ballI)
    fix x y assume "x \<in> set (takeWhile ?P q)" "y \<in> set (dropWhile ?P q)"
    then have "pv r \<le> pv x" "pv y < pv r" using a b by blast+
    then show "pv y \<le> pv x" by simp
  qed
  have b': "\<forall>x\<in>set (dropWhile ?P q). pv x \<le> pv r"
    using b by (simp add: order_less_imp_le)
  have "sorted_wrt ?R ([r] @ dropWhile ?P q)"
    using s2 b' by simp
  moreover have "\<forall>x\<in>set (takeWhile ?P q). \<forall>y\<in>set ([r] @ dropWhile ?P q). pv y \<le> pv x"
  proof (intro ballI)
    fix x y assume x: "x \<in> set (takeWhile ?P q)" and "y \<in> set ([r] @ dropWhile ?P q)"
    then have "y = r \<or> y \<in> set (dropWhile ?P q)" by simp
    then show "pv y \<le> pv x" using a c x by blast
  qed
  ultimately have "sorted_wrt ?R (takeWhile ?P q @ ([r] @ dropWhile ?P q))"
    using s1 sorted_wrt_append[of ?R "takeWhile ?P q" "[r] @ dropWhile ?P q"] by blast
  then show ?thesis
    by (simp only: enqueue_takeWhile queueOrdered_def)
qed

lemma queueStep_ordered:
  assumes "queueOrdered q"
  shows "queueOrdered (queueStep q op)"
proof (cases op)
  case (Enqueue r)
  then show ?thesis using assms by (simp add: queueOrdered_enqueue)
next
  case Dequeue
  then show ?thesis using assms by (cases q) (simp_all add: queueOrdered_def)
qed

lemma queueRun_ordered: "queueOrdered q \<Longrightarrow> queueOrdered (queueRun q ops)"
  unfolding queueRun_def
  by (induction ops arbitrary: q) (simp_all add: queueStep_ordered)

lemma queueOrdered_Nil: "queueOrdered []"
  by (simp add: queueOrdered_def)

lemma queueOrdered_hd: "queueOrdered q \<Longrightarrow> x \<in> set q \<Longrightarrow> pv x \<le> pv (hd q)"
  by (cases q) (auto simp: queueOrdered_def)

lemma priority_eq_pv: "priority x = priority r \<Longrightarrow> pv x = pv r"
  by (simp add: pv_def)

lemma enqueue_filter_priority:
  assumes "queueOrdered q"
  shows "filter (\<lambda>x. priority x = p) (enqueue r q)
       = filter (\<lambda>x. priority x = p) q @ (if priority r = p then [r] else [])"
proof -
  let ?P = "\<lambda>x. pv r \<le> pv x"
  let ?F = "\<lambda>x. priority x = p"
  have q: "sorted_wrt (\<lambda>a b. pv b \<le> pv a) q" using assms by (simp add: queueOrdered_def)
  have b: "\<forall>x\<in>set (dropWhile ?P q). pv x < pv r" by (rule dropWhile_below[OF q])
  have split: "filter ?F q = filter ?F (takeWhile ?P q) @ filter ?F (dropWhile ?P q)"
    by (metis filter_append takeWhile_dropWhile_id)
  have e: "filter ?F (enqueue r q)
        = filter ?F (takeWhile ?P q) @ (if priority r = p then [r] else [])
            @ filter ?F (dropWhile ?P q)"
    by (simp add: enqueue_takeWhile)
  show ?thesis
  proof (cases "priority r = p")
    case True
    have "filter ?F (dropWhile ?P q) = []"
    proof (rule filter_False, intro ballI)
      fix x assume "x \<in> set (dropWhile ?P q)"
      then have "pv x < pv r" using b by blast
      then show "\<not> priority x = p" using True priority_eq_pv[of x r] by auto
    qed
    then show ?thesis using e split True by simp
  next
    case False
    then show ?thesis using e split by simp
  qed
qed

lemma enqueue_mset: "mset (enqueue r q) = add_mset r (mset q)"
proof -
  have "mset q = mset (takeWhile (\<lambda>x. pv r \<le> pv x) q)
               + mset (dropWhile (\<lambda>x. pv r \<le> pv x) q)"
    by (metis mset_append takeWhile_dropWhile_id)
  then show ?thesis by (simp add: enqueue_takeWhile)
qed

lemma enqueueAll_Nil: "enqueueAll [] = []"
  by (simp add: enqueueAll_def queueRun_def)

lemma enqueueAll_snoc: "enqueueAll (rs @ [r]) = enqueue r (enqueueAll rs)"
  by (simp add: enqueueAll_def queueRun_def)

lemma enqueueAll_ordered: "queueOrdered (enqueueAll rs)"
  unfolding enqueueAll_def by (rule queueRun_ordered[OF queueOrdered_Nil])

lemma enqueueAll_mset: "mset (enqueueAll rs) = mset rs"
  by (induction rs rule: rev_induct) (simp_all add: enqueueAll_Nil enqueueAll_snoc enqueue_mset)

lemma enqueueAll_filter:
  "filter (\<lambda>x. priority x = p) (enqueueAll rs) = filter (\<lambda>x. priority x = p) rs"
proof (induction rs rule: rev_induct)
  case Nil
  then show ?case by (simp add: enqueueAll_Nil)
next
  case (snoc r rs)
  then show ?case
    by (simp add: enqueueAll_snoc enqueue_filter_priority[OF enqueueAll_ordered])
qed

lemma requestQueue_queueRequest:
  "requestQueue (queueRequest P u cfg now c)
     = queueStep (requestQueue c)
         (Enqueue \<lparr> rid = generateRequestId P u cfg, url = u, config = cfg,
                    priority = orElse (req_priority cfg) NORMAL, queuedAt = now \<rparr>)"
  by (simp add: queueRequest_def Let_def)

lemma processQueue_front:
  "isOnline c \<Longrightarrow> requestQueue c = req # rest \<Longrightarrow>
   processQueue fuel P perform rnd c
     = (c\<lparr> requestQueue := rest \<rparr>, Some (req, executeRequest fuel P (config req) perform rnd))"
  by (simp add: processQueue_def)

lemma processQueue_idle:
  "\<not> isOnline c \<or> requestQueue c = [] \<Longrightarrow> processQueue fuel P perform rnd c = (c, None)"
  by (auto simp: processQueue_def)

lemma requestQueue_processQueue:
  "requestQueue (fst (processQueue fuel P perform rnd c))
     = (if isOnline c then queueStep (requestQueue c) Dequeue else requestQueue c)"
  by (cases "requestQueue c") (simp_all add: processQueue_def)

lemma requestQueue_getCircuitBreaker:
  "requestQueue (snd (getCircuitBreaker e c)) = requestQueue c"
  by (simp add: getCircuitBreaker_def split: option.splits)


lemma requestQueue_request_begin:
  "requestQueue (snd (request_begin P u cfg promise now c)) = requestQueue c
   \<or> (\<exists>r. requestQueue (snd (request_begin P u cfg promise now c)) = enqueue r (requestQueue c))"
proof -
  obtain cb c1 where g: "getCircuitBreaker (extractEndpoint P (fullUrlOf P u)) c = (cb, c1)"
    by (cases "getCircuitBreaker (extractEndpoint P (fullUrlOf P u)) c")
  then have q: "requestQueue c1 = requestQueue c"
    using requestQueue_getCircuitBreaker[of "extractEndpoint P (fullUrlOf P u)" c] by simp
  show ?thesis
    using g q by (auto simp: request_begin_def Let_def queueRequest_def)
qed

lemma requestQueue_recordSuccess: "requestQueue (recordSuccess e c) = requestQueue c"
  by (simp add: recordSuccess_def getCircuitBreaker_def split: option.splits prod.splits)

lemma requestQueue_recordFailure: "requestQueue (fst (recordFailure e now c)) = requestQueue c"
  by (simp add: recordFailure_def getCircuitBreaker_def split: option.splits prod.splits)

lemma requestQueue_request_end:
  "requestQueue (fst (request_end P u cfg result now c)) = requestQueue c"
proof (cases result)
  case (Inl e)
  obtain c1 t where f: "recordFailure (extractEndpoint P (fullUrlOf P u)) now c = (c1, t)"
    by (cases "recordFailure (extractEndpoint P (fullUrlOf P u)) now c")
  then have "requestQueue c1 = requestQueue c"
    using requestQueue_recordFailure[of "extractEndpoint P (fullUrlOf P u)" now c] by simp
  then show ?thesis
    using Inl f by (simp add: request_end_def Let_def)
next
  case (Inr r)
  then show ?thesis
    by (simp add: request_end_def Let_def requestQueue_recordSuccess)
qed

lemma requestQueue_recoveryCallback: "requestQueue (recoveryCallback e c) = requestQueue c"
  by (simp add: recoveryCallback_def split: option.splits)

lemma clientStep_queue:
  "\<exists>ops. requestQueue (clientStep P c ev) = queueRun (requestQueue c) ops"
proof (cases ev)
  case (Begin u cfg promise now)
  from requestQueue_request_begin[of P u cfg promise now c]
  show ?thesis
  proof
    assume "requestQueue (snd (request_begin P u cfg promise now c)) = requestQueue c"
    then have "requestQueue (clientStep P c ev) = queueRun (requestQueue c) []"
      using Begin by (simp add: queueRun_def)
    then show ?thesis by blast
  next
    assume "\<exists>r. requestQueue (snd (request_begin P u cfg promise now c)) = enqueue r (requestQueue c)"
    then obtain r where "requestQueue (snd (request_begin P u cfg promise now c)) = enqueue r (requestQueue c)"
      by blast
    then have "requestQueue (clientStep P c ev) = queueRun (requestQueue c) [Enqueue r]"
      using Begin by (simp add: queueRun_def)
    then show ?thesis by blast
  qed
next
  case (Settle u cfg result now)
  then have "requestQueue (clientStep P c ev) = queueRun (requestQueue c) []"
    by (simp add: queueRun_def requestQueue_request_end)
  then show ?thesis by blast
next
  case (Tick fuel perform rnd)
  show ?thesis
  proof (cases "isOnline c")
    case True
    then have "requestQueue (clientStep P c ev) = queueRun (requestQueue c) [Dequeue]"
      using Tick by (simp add: queueRun_def requestQueue_processQueue)
    then show ?thesis by blast
  next
    case False
    then have "requestQueue (clientStep P c ev) = queueRun (requestQueue c) []"
      using Tick by (simp add: queueRun_def requestQueue_processQueue)
    then show ?thesis by blast
  qed
next
  case (Recovery e)
  then have "requestQueue (clientStep P c ev) = queueRun (requestQueue c) []"
    by (simp add: queueRun_def requestQueue_recoveryCallback)
  then show ?thesis by blast
next
  case NetworkOnline
  then have "requestQueue (clientStep P c ev) = queueRun (requestQueue c) []"
    by (simp add: queueRun_def)
  then show ?thesis by blast
next
  case NetworkOffline
  then have "requestQueue (clientStep P c ev) = queueRun (requestQueue c) []"
    by (simp add: queueRun_def)
  then show ?thesis by blast
qed

lemma clientStep_ordered:
  "queueOrdered (requestQueue c) \<Longrightarrow> queueOrdered (requestQueue (clientStep P c ev))"
  using clientStep_queue[of P c ev] queueRun_ordered by (metis)

lemma clientRun_ordered:
  "queueOrdered (requestQueue c) \<Longrightarrow> queueOrdered (requestQueue (clientRun P c evs))"
  unfolding clientRun_def
  by (induction evs arbitrary: c) (simp_all add: clientStep_ordered)

lemma pv_inj: "pv x = pv y \<longleftrightarrow> priority x = priority y"
  by (cases "priority x"; cases "priority y") (simp_all add: pv_def)

lemma enqueueAll_stable_sort:
  "enqueueAll rs = sort_key (\<lambda>r. - int (pv r)) rs"
proof (rule sym, rule properties_for_sort_key)
  show "mset (enqueueAll rs) = mset rs" by (rule enqueueAll_mset)
next
  fix k assume "k \<in> set (enqueueAll rs)"
  have "(\<lambda>x. - int (pv k) = - int (pv x)) = (\<lambda>x. priority x = priority k)"
    using pv_inj by auto
  then show "filter (\<lambda>x. - int (pv k) = - int (pv x)) (enqueueAll rs)
           = filter (\<lambda>x. - int (pv k) = - int (pv x)) rs"
    by (simp add: enqueueAll_filter)
next
  have "sorted_wrt (\<lambda>a b. pv b \<le> pv a) (enqueueAll rs)"
    using enqueueAll_ordered by (simp add: queueOrdered_def)
  then show "sorted (map (\<lambda>r. - int (pv r)) (enqueueAll rs))"
    by (simp add: sorted_map) 
qed

lemma generateRequestId_sample:
  "generateRequestId samplePlatform u (sampleConfig\<lparr> req_priority := Some p \<rparr>)
     = filter isAlphaNum (''GET:'' @ u @ '':{}'')"
  by (simp add: generateRequestId_def samplePlatform_def sampleConfig_def truthy_def orElse_def)

lemma fullUrlOf_sample: "fullUrlOf samplePlatform u = u"
  by (simp add: fullUrlOf_def samplePlatform_def)

lemma two_requests_queued_offline:
  "requestQueue (clientRun samplePlatform (newClient False)
      [Begin ''/api/a'' (sampleConfig\<lparr> req_priority := Some LOW \<rparr>) 1 10,
       Begin ''/api/b'' (sampleConfig\<lparr> req_priority := Some CRITICAL \<rparr>) 2 20 :: unit ClientEvent])
   = [sampleRequest ''GETapib'' ''/api/b'' CRITICAL 20, sampleRequest ''GETapia'' ''/api/a'' LOW 10]"
  by (simp add: clientRun_def request_begin_def newClient_def Let_def generateRequestId_sample
        isAlphaNum_def getCircuitBreaker_def freshBreaker_def queueRequest_def enqueue_def
        orElse_def splice_insert_def fullUrlOf_sample sampleRequest_def)

text \<open>
  Claim C10. In every state of the client (any steps, from a new client) the request
  queue \<open>q\<close> is in non-increasing priority order. Queueing \<open>r\<close> puts it after the
  leading requests of priority at least that of \<open>r\<close> and before the rest, all of
  strictly lower priority; the queue stays ordered, and \<open>r\<close> comes after the queued
  requests of its own priority, whose order is kept. The queue processor, when online,
  takes the first request, whose priority is the highest in the queue. Requests queued
  one after the other are thus processed in the order of a stable sort by descending
  priority.
\<close>

theorem queue_priority_order:
  assumes "q = requestQueue (clientRun P (newClient online) evs)"
  shows "queueOrdered q
    \<and> enqueue r q = takeWhile (\<lambda>x. pv r \<le> pv x) q @ [r] @ dropWhile (\<lambda>x. pv r \<le> pv x) q
    \<and> (\<forall>x\<in>set (takeWhile (\<lambda>x. pv r \<le> pv x) q). pv r \<le> pv x)
    \<and> (\<forall>x\<in>set (dropWhile (\<lambda>x. pv r \<le> pv x) q). pv x < pv r)
    \<and> queueOrdered (enqueue r q)
    \<and> filter (\<lambda>x. priority x = p) (enqueue r q)
        = filter (\<lambda>x. priority x = p) q @ (if priority r = p then [r] else [])
    \<and> (\<forall>c fuel perform rnd. isOnline c \<and> requestQueue c = q \<and> q \<noteq> [] \<longrightarrow>
          processQueue fuel P perform rnd c
            = (c\<lparr> requestQueue := tl q \<rparr>,
               Some (hd q, executeRequest fuel P (config (hd q)) (perform :: nat \<Rightarrow> 'r Completion) rnd)))
    \<and> (\<forall>x\<in>set q. pv x \<le> pv (hd q))
    \<and> enqueueAll rs = sort_key (\<lambda>x. - int (pv x)) rs"
proof -
  have o: "queueOrdered q"
    unfolding assms by (rule clientRun_ordered) (simp add: newClient_def queueOrdered_Nil)
  then have s: "sorted_wrt (\<lambda>a b. pv b \<le> pv a) q" by (simp add: queueOrdered_def)
  have p: "\<forall>c fuel perform rnd. isOnline c \<and> requestQueue c = q \<and> q \<noteq> [] \<longrightarrow>
          processQueue fuel P perform rnd c
            = (c\<lparr> requestQueue := tl q \<rparr>,
               Some (hd q, executeRequest fuel P (config (hd q)) (perform :: nat \<Rightarrow> 'r Completion) rnd))"
    by (cases q) (auto simp: processQueue_def)
  show ?thesis
    using o enqueue_takeWhile[of r q] takeWhile_above[of r q] dropWhile_below[OF s, of r]
      queueOrdered_enqueue[OF o, of r] enqueue_filter_priority[OF o, of p r] p
      queueOrdered_hd[OF o] enqueueAll_stable_sort[of rs]
    by blast
qed

text \<open>Offline, a LOW request and then a CRITICAL one are queued; the queue holds the
  CRITICAL one first, and a HIGH request goes between them.\<close>

theorem queue_priority_order_witness:
  "[sampleRequest ''GETapib'' ''/api/b'' CRITICAL 20, sampleRequest ''GETapia'' ''/api/a'' LOW 10]
     = requestQueue (clientRun samplePlatform (newClient False)
         [Begin ''/api/a'' (sampleConfig\<lparr> req_priority := Some LOW \<rparr>) 1 10,
          Begin ''/api/b'' (sampleConfig\<lparr> req_priority := Some CRITICAL \<rparr>) 2 20 :: unit ClientEvent])
   \<and> queueOrdered
        [sampleRequest ''GETapib'' ''/api/b'' CRITICAL 20, sampleRequest ''GETapia'' ''/api/a'' LOW 10]
   \<and> enqueue (sampleRequest ''GETapic'' ''/api/c'' HIGH 30)
        [sampleRequest ''GETapib'' ''/api/b'' CRITICAL 20, sampleRequest ''GETapia'' ''/api/a'' LOW 10]
      = [sampleRequest ''GETapib'' ''/api/b'' CRITICAL 20,
         sampleRequest ''GETapic'' ''/api/c'' HIGH 30,
         sampleRequest ''GETapia'' ''/api/a'' LOW 10]"
proof -
  let ?q = "[sampleRequest ''GETapib'' ''/api/b'' CRITICAL 20,
             sampleRequest ''GETapia'' ''/api/a'' LOW 10]"
  have q: "?q = requestQueue (clientRun samplePlatform (newClient False)
         [Begin ''/api/a'' (sampleConfig\<lparr> req_priority := Some LOW \<rparr>) 1 10,
          Begin ''/api/b'' (sampleConfig\<lparr> req_priority := Some CRITICAL \<rparr>) 2 20 :: unit ClientEvent])"
    by (simp only: two_requests_queued_offline)
  have pvs: "pv (sampleRequest ''GETapib'' ''/api/b'' CRITICAL 20) = 4"
    "pv (sampleRequest ''GETapia'' ''/api/a'' LOW 10) = 1"
    "pv (sampleRequest ''GETapic'' ''/api/c'' HIGH 30) = 3"
    by (simp_all add: pv_def sampleRequest_def)
  from queue_priority_order[OF q, of "sampleRequest ''GETapic'' ''/api/c'' HIGH 30" HIGH "[]"]
  have "queueOrdered ?q"
    and "enqueue (sampleRequest ''GETapic'' ''/api/c'' HIGH 30) ?q
       = takeWhile (\<lambda>x. pv (sampleRequest ''GETapic'' ''/api/c'' HIGH 30) \<le> pv x) ?q
         @ [sampleRequest ''GETapic'' ''/api/c'' HIGH 30]
         @ dropWhile (\<lambda>x. pv (sampleRequest ''GETapic'' ''/api/c'' HIGH 30) \<le> pv x) ?q"
    by blast+
  then have "queueOrdered ?q"
    and "enqueue (sampleRequest ''GETapic'' ''/api/c'' HIGH 30) ?q
       = [sampleRequest ''GETapib'' ''/api/b'' CRITICAL 20,
          sampleRequest ''GETapic'' ''/api/c'' HIGH 30,
          sampleRequest ''GETapia'' ''/api/a'' LOW 10]"
    by (simp_all add: pvs)
  with q show ?thesis by (intro conjI)
qed

section \<open>The circuit breaker\<close>

lemma state_successUpdate:
  "state (successUpdate cb) = (if state cb = HALF_OPEN \<and> 3 \<le> successCount cb + 1 then CLOSED else state cb)"
  by (simp add: successUpdate_def Let_def)

lemma failureCount_successUpdate:
  "failureCount (successUpdate cb) = (if state cb = HALF_OPEN \<and> 3 \<le> successCount cb + 1 then 0 else failureCount cb)"
  by (simp add: successUpdate_def Let_def)

lemma successCount_successUpdate: "successCount (successUpdate cb) = successCount cb + 1"
  by (simp add: successUpdate_def Let_def)

lemma state_failureUpdate:
  "state (fst (failureUpdate now cb))
     = (if state cb = CLOSED \<and> failureThreshold \<le> failureCount cb + 1 then OPEN else state cb)"
  by (simp add: failureUpdate_def Let_def)


lemma successCount_failureUpdate: "successCount (fst (failureUpdate now cb)) = successCount cb"
  by (simp add: failureUpdate_def Let_def)

lemma timer_failureUpdate:
  "snd (failureUpdate now cb)
     = (if state cb = CLOSED \<and> failureThreshold \<le> failureCount cb + 1 then Some recoveryTimeout else None)"
  by (simp add: failureUpdate_def Let_def)

lemma state_recoveryUpdate:
  "state (recoveryUpdate cb) = (if state cb = OPEN then HALF_OPEN else state cb)"
  by (simp add: recoveryUpdate_def)


lemma successCount_recoveryUpdate:
  "successCount (recoveryUpdate cb) = (if state cb = OPEN then 0 else successCount cb)"
  by (simp add: recoveryUpdate_def)

lemma breakerRun_snoc: "breakerRun cb (evs @ [ev]) = breakerStep (breakerRun cb evs) ev"
  by (simp add: breakerRun_def)

lemma breakerRun_Nil: "breakerRun cb [] = cb"
  by (simp add: breakerRun_def)




lemma halfOpen_run:
  assumes "state cb = HALF_OPEN" "successCount cb = 0"
    and "length (filter isSuccess evs) < 3"
  shows "state (breakerRun cb evs) = HALF_OPEN
       \<and> successCount (breakerRun cb evs) = length (filter isSuccess evs)"
  using assms(3)
proof (induction evs rule: rev_induct)
  case Nil
  then show ?case using assms by (simp add: breakerRun_Nil)
next
  case (snoc ev evs)
  then have ih: "state (breakerRun cb evs) = HALF_OPEN"
     "successCount (breakerRun cb evs) = length (filter isSuccess evs)"
    by (simp_all split: if_splits)
  show ?case
  proof (cases ev)
    case Success
    then show ?thesis using ih snoc.prems
      by (simp add: breakerRun_snoc state_successUpdate successCount_successUpdate)
  next
    case (Failure now)
    then show ?thesis using ih
      by (simp add: breakerRun_snoc state_failureUpdate successCount_failureUpdate)
  next
    case RecoveryTimer
    then show ?thesis using ih
      by (simp add: breakerRun_snoc state_recoveryUpdate successCount_recoveryUpdate)
  qed
qed

lemma halfOpen_third_success:
  assumes "state cb = HALF_OPEN" "successCount cb = 0"
    and "length (filter isSuccess evs) = 2"
  shows "state (breakerRun cb (evs @ [Success])) = CLOSED
       \<and> failureCount (breakerRun cb (evs @ [Success])) = 0"
proof -
  have "state (breakerRun cb evs) = HALF_OPEN \<and> successCount (breakerRun cb evs) = 2"
    using halfOpen_run[OF assms(1,2), of evs] assms(3) by simp
  then show ?thesis
    by (simp add: breakerRun_snoc state_successUpdate failureCount_successUpdate)
qed





lemma breakerOf_None: "circuitBreakers c e = None \<Longrightarrow> breakerOf c e = freshBreaker"
  by (simp add: breakerOf_def getCircuitBreaker_def)


lemma fst_getCircuitBreaker: "fst (getCircuitBreaker e c) = breakerOf c e"
  by (simp add: breakerOf_def)










lemma generateRequestId_sampleConfig:
  "generateRequestId samplePlatform u sampleConfig = filter isAlphaNum (''GET:'' @ u @ '':{}'')"
  by (simp add: generateRequestId_def samplePlatform_def sampleConfig_def truthy_def orElse_def)

lemma extractEndpoint_sample:
  "extractEndpoint samplePlatform ''/api/a/slow'' = ''api/a''"
  "extractEndpoint samplePlatform ''/api/a/x'' = ''api/a''"
  "extractEndpoint samplePlatform ''/api/a/y'' = ''api/a''"
  by (simp_all add: extractEndpoint_def samplePlatform_def)

lemma sampleConfig_fields: "optimistic sampleConfig = False" "req_priority sampleConfig = None"
  by (simp_all add: sampleConfig_def)

lemmas client_eval = clientRun_def request_begin_def request_end_def newClient_def Let_def
  generateRequestId_sampleConfig fullUrlOf_sample extractEndpoint_sample isAlphaNum_def
  getCircuitBreaker_def freshBreaker_def recordFailure_def recordSuccess_def
  failureUpdate_def successUpdate_def failureThreshold_def recoveryTimeout_def
  recoveryCallback_def recoveryUpdate_def sampleConfig_fields failedCall_def goodCall_def
  networkError_def








lemma circuitBreakers_recordSuccess:
  "circuitBreakers (recordSuccess e c) e = Some (successUpdate (breakerOf c e))"
  by (simp add: recordSuccess_def breakerOf_def getCircuitBreaker_def split: option.splits)

lemma circuitBreakers_recordFailure:
  "circuitBreakers (fst (recordFailure e now c)) e = Some (fst (failureUpdate now (breakerOf c e)))"
  by (simp add: recordFailure_def breakerOf_def getCircuitBreaker_def split: option.splits prod.splits)






text \<open>
  Claim C4, as amended. A recorded success adds 1 to \<open>successCount\<close>. It leaves
  \<open>failureCount\<close> and the state as they are, except in HALF_OPEN when the new
  \<open>successCount\<close> is at least 3: then the breaker becomes CLOSED and \<open>failureCount\<close> is
  reset to 0. The recovery timer enters HALF_OPEN with \<open>successCount = 0\<close>; from there the
  breaker stays HALF_OPEN while fewer than three successes were recorded and becomes
  CLOSED at the third, whatever failures were recorded in between.
\<close>

theorem success_closes_after_three:
  "successCount (successUpdate cb) = successCount cb + 1
   \<and> failureCount (successUpdate cb)
       = (if state cb = HALF_OPEN \<and> 3 \<le> successCount cb + 1 then 0 else failureCount cb)
   \<and> state (successUpdate cb)
       = (if state cb = HALF_OPEN \<and> 3 \<le> successCount cb + 1 then CLOSED else state cb)
   \<and> circuitBreakers (recordSuccess e c) e = Some (successUpdate (breakerOf c e))
   \<and> (state cb = OPEN \<longrightarrow>
         state (recoveryUpdate cb) = HALF_OPEN \<and> successCount (recoveryUpdate cb) = 0)
   \<and> (state cb = HALF_OPEN \<and> successCount cb = 0 \<and> length (filter isSuccess evs) < 3 \<longrightarrow>
         state (breakerRun cb evs) = HALF_OPEN
         \<and> successCount (breakerRun cb evs) = length (filter isSuccess evs))
   \<and> (state cb = HALF_OPEN \<and> successCount cb = 0 \<and> length (filter isSuccess evs) = 2 \<longrightarrow>
         state (breakerRun cb (evs @ [Success])) = CLOSED
         \<and> failureCount (breakerRun cb (evs @ [Success])) = 0)"
  using successCount_successUpdate[of cb] failureCount_successUpdate[of cb]
    state_successUpdate[of cb] circuitBreakers_recordSuccess[of e c]
    state_recoveryUpdate[of cb] successCount_recoveryUpdate[of cb]
    halfOpen_run[of cb evs] halfOpen_third_success[of cb evs]
  by simp

text \<open>A breaker half-opened by the timer closes at the third success, one failure having
  come between.\<close>

theorem success_closes_after_three_witness:
  "state (recoveryUpdate \<lparr> state = OPEN, failureCount = 5, lastFailureTime = 5, successCount = 4 \<rparr>)
     = HALF_OPEN
   \<and> state (breakerRun
        (recoveryUpdate \<lparr> state = OPEN, failureCount = 5, lastFailureTime = 5, successCount = 4 \<rparr>)
        [Success, Failure 6, Success]) = HALF_OPEN
   \<and> state (breakerRun
        (recoveryUpdate \<lparr> state = OPEN, failureCount = 5, lastFailureTime = 5, successCount = 4 \<rparr>)
        ([Success, Failure 6, Success] @ [Success])) = CLOSED
   \<and> failureCount (breakerRun
        (recoveryUpdate \<lparr> state = OPEN, failureCount = 5, lastFailureTime = 5, successCount = 4 \<rparr>)
        ([Success, Failure 6, Success] @ [Success])) = 0"
proof -
  let ?cb = "recoveryUpdate \<lparr> state = OPEN, failureCount = 5, lastFailureTime = 5, successCount = 4 \<rparr>"
  have h: "state ?cb = HALF_OPEN" "successCount ?cb = 0"
    by (simp_all add: recoveryUpdate_def)
  have n: "length (filter isSuccess [Success, Failure 6, Success]) = 2" by simp
  show ?thesis
    using success_closes_after_three[of ?cb _ _ "[Success, Failure 6, Success]"] h n
    by simp
qed

text \<open>
  Claim C4 as stated fails: after two failures and a success on a CLOSED breaker the
  failure count is still 2, and a HALF_OPEN breaker closes after three successes with a
  failure between the first and the second.
\<close>

theorem success_reset_counterexample:
  "circuitBreakers (clientRun samplePlatform (newClient True)
       (failedCall ''/api/a/x'' 1 @ failedCall ''/api/a/x'' 2 @ goodCall ''/api/a/x'' 3)) ''api/a''
     = Some \<lparr> state = CLOSED, failureCount = 2, lastFailureTime = 2, successCount = 1 \<rparr>
   \<and> breakerRun \<lparr> state = HALF_OPEN, failureCount = 5, lastFailureTime = 5, successCount = 0 \<rparr>
        [Success, Failure 6, Success, Success]
     = \<lparr> state = CLOSED, failureCount = 0, lastFailureTime = 6, successCount = 3 \<rparr>"
  by (simp add: client_eval breakerRun_def)















section \<open>The retry loop\<close>

lemma jsMax_zero_bounds:
  "jsMax (jsMin x m) (Num 0) = NaN
   \<or> (jsLe (Num 0) (jsMax (jsMin x m) (Num 0)) \<and> jsLe (jsMax (jsMin x m) (Num 0)) (jsMax m (Num 0)))"
  by (cases x; cases m) (auto simp: jsMax_def jsMin_def)

lemma calculateRetryDelay_bounds:
  "calculateRetryDelay P attempt rc r = NaN
   \<or> (jsLe (Num 0) (calculateRetryDelay P attempt rc r)
       \<and> jsLe (calculateRetryDelay P attempt rc r) (jsMax (maxDelay rc) (Num 0)))"
  unfolding calculateRetryDelay_def Let_def by (rule jsMax_zero_bounds)

lemma nextAttempt_attemptNumber: "nextAttempt (attemptNumber k) = attemptNumber (k + 1)"
  by (simp add: nextAttempt_def attemptNumber_def min_def)

lemma shouldRetry_True_lt:
  "shouldRetry rc e a = Returns True \<Longrightarrow> jsLt (Num (of_int a)) (maxAttempts rc)"
  by (simp add: shouldRetry_def split: if_splits)

lemma retryLoop_exit:
  "\<not> jsLe (Num (of_int a)) (maxAttempts rc) \<Longrightarrow>
   retryLoop (Suc fuel) P rc perform rnd made a le
     = Some \<lparr> outcome = Throws (orElse le fallbackError), attempts = made, delays = [] \<rparr>"
  by (simp add: retryLoop.simps)

lemma retryLoop_success:
  "jsLe (Num (of_int a)) (maxAttempts rc) \<Longrightarrow> perform (made + 1) = Returns x \<Longrightarrow>
   retryLoop (Suc fuel) P rc perform rnd made a le
     = Some \<lparr> outcome = Returns x, attempts = made + 1, delays = [] \<rparr>"
  by (simp add: retryLoop.simps)

lemma retryLoop_pending:
  "jsLe (Num (of_int a)) (maxAttempts rc) \<Longrightarrow> perform (made + 1) = Pending \<Longrightarrow>
   retryLoop (Suc fuel) P rc perform rnd made a le
     = Some \<lparr> outcome = Pending, attempts = made + 1, delays = [] \<rparr>"
  by (simp add: retryLoop.simps)

lemma retryLoop_give_up:
  "jsLe (Num (of_int a)) (maxAttempts rc) \<Longrightarrow> perform (made + 1) = Throws e \<Longrightarrow>
   shouldRetry rc e a \<noteq> Returns True \<Longrightarrow>
   retryLoop (Suc fuel) P rc perform rnd made a le
     = Some \<lparr> outcome = finalOutcome rc (Throws e) a, attempts = made + 1, delays = [] \<rparr>"
  by (cases "shouldRetry rc e a") (auto simp: retryLoop.simps finalOutcome_def)

lemma retryLoop_retry:
  "jsLe (Num (of_int a)) (maxAttempts rc) \<Longrightarrow> perform (made + 1) = Throws e \<Longrightarrow>
   shouldRetry rc e a = Returns True \<Longrightarrow>
   retryLoop (Suc fuel) P rc perform rnd made a le
     = (case retryLoop fuel P rc perform rnd (made + 1) (nextAttempt a) (Some e) of
          None \<Rightarrow> None
        | Some rest \<Rightarrow>
            Some (rest\<lparr> delays := calculateRetryDelay P a rc (rnd (made + 1)) # delays rest \<rparr>))"
  by (simp add: retryLoop.simps)

lemma retryLoop_cases:
  obtains (exit) "\<not> jsLe (Num (of_int a)) (maxAttempts rc)"
  | (success) x where "jsLe (Num (of_int a)) (maxAttempts rc)" "perform (made + 1) = Returns x"
  | (pending) "jsLe (Num (of_int a)) (maxAttempts rc)" "perform (made + 1) = Pending"
  | (give_up) e where "jsLe (Num (of_int a)) (maxAttempts rc)" "perform (made + 1) = Throws e"
      "shouldRetry rc e a \<noteq> Returns True"
  | (retry) e where "jsLe (Num (of_int a)) (maxAttempts rc)" "perform (made + 1) = Throws e"
      "shouldRetry rc e a = Returns True"
proof (cases "jsLe (Num (of_int a)) (maxAttempts rc)")
  case False
  then show ?thesis by (rule exit)
next
  case le: True
  show ?thesis
  proof (cases "perform (made + 1)")
    case (Returns x)
    then show ?thesis using le success by blast
  next
    case Pending
    then show ?thesis using le pending by blast
  next
    case (Throws e)
    show ?thesis
    proof (cases "shouldRetry rc e a = Returns True")
      case True
      then show ?thesis using le Throws retry by blast
    next
      case False
      then show ?thesis using le Throws give_up by blast
    qed
  qed
qed

lemma retryLoop_made_le:
  "retryLoop fuel P rc perform rnd made a le = Some ex \<Longrightarrow> made \<le> attempts ex"
proof (induction fuel arbitrary: made a le ex)
  case 0
  then show ?case by (simp add: retryLoop.simps)
next
  case (Suc fuel)
  show ?case
  proof (cases rule: retryLoop_cases[where rc=rc and a=a and perform=perform and made=made])
    case exit
    then show ?thesis using Suc.prems by (auto simp: retryLoop_exit)
  next
    case (success x)
    then show ?thesis using Suc.prems by (auto simp: retryLoop_success)
  next
    case pending
    then show ?thesis using Suc.prems by (auto simp: retryLoop_pending)
  next
    case (give_up e)
    then show ?thesis using Suc.prems by (auto simp: retryLoop_give_up)
  next
    case (retry e)
    then obtain rest where r: "retryLoop fuel P rc perform rnd (made + 1) (nextAttempt a) (Some e) = Some rest"
      and ex: "ex = rest\<lparr> delays := calculateRetryDelay P a rc (rnd (made + 1)) # delays rest \<rparr>"
      using Suc.prems by (auto simp: retryLoop_retry split: option.splits)
    have "made + 1 \<le> attempts rest" by (rule Suc.IH[OF r])
    then show ?thesis using ex by simp
  qed
qed

lemma retryLoop_attempts:
  assumes "maxAttempts rc = Num m" "m \<le> 9007199254740992"
  shows "retryLoop fuel P rc perform rnd made a le = Some ex \<Longrightarrow>
         int (attempts ex) \<le> int made + max 0 (\<lfloor>m\<rfloor> + 1 - a)"
proof (induction fuel arbitrary: made a le ex)
  case 0
  then show ?case by (simp add: retryLoop.simps)
next
  case (Suc fuel)
  show ?case
  proof (cases rule: retryLoop_cases[where rc=rc and a=a and perform=perform and made=made])
    case exit
    then show ?thesis using Suc.prems by (auto simp: retryLoop_exit)
  next
    case (success x)
    then have "a \<le> \<lfloor>m\<rfloor>" using assms(1) by (simp add: le_floor_iff)
    then show ?thesis using success Suc.prems by (auto simp: retryLoop_success)
  next
    case pending
    then have "a \<le> \<lfloor>m\<rfloor>" using assms(1) by (simp add: le_floor_iff)
    then show ?thesis using pending Suc.prems by (auto simp: retryLoop_pending)
  next
    case (give_up e)
    then have "a \<le> \<lfloor>m\<rfloor>" using assms(1) by (simp add: le_floor_iff)
    then show ?thesis using give_up Suc.prems by (auto simp: retryLoop_give_up)
  next
    case (retry e)
    then obtain rest where r: "retryLoop fuel P rc perform rnd (made + 1) (nextAttempt a) (Some e) = Some rest"
      and ex: "ex = rest\<lparr> delays := calculateRetryDelay P a rc (rnd (made + 1)) # delays rest \<rparr>"
      using Suc.prems by (auto simp: retryLoop_retry split: option.splits)
    have le: "a \<le> \<lfloor>m\<rfloor>" using retry(1) assms(1) by (simp add: le_floor_iff)
    have "of_int a < m" using shouldRetry_True_lt[OF retry(3)] assms(1) by (simp add: jsLt_def)
    then have "of_int a < (9007199254740992 :: real)" using assms(2) by simp
    then have "a < 9007199254740992" by linarith
    then have n: "nextAttempt a = a + 1" by (simp add: nextAttempt_def)
    have "int (attempts rest) \<le> int (made + 1) + max 0 (\<lfloor>m\<rfloor> + 1 - (a + 1))"
      using Suc.IH[OF r] n by simp
    then show ?thesis using ex le by simp
  qed
qed

lemma retryLoop_no_attempt:
  assumes "maxAttempts rc = NaN \<or> maxAttempts rc = NegInf"
  shows "retryLoop (Suc fuel) P rc perform rnd made a le
     = Some \<lparr> outcome = Throws (orElse le fallbackError), attempts = made, delays = [] \<rparr>"
  using assms by (auto simp: retryLoop_exit)

lemma retryLoop_terminates:
  assumes "maxAttempts rc = Num m" "m \<le> 9007199254740992"
  shows "nat (\<lfloor>m\<rfloor> + 1 - a) < fuel \<Longrightarrow> \<exists>ex. retryLoop fuel P rc perform rnd made a le = Some ex"
proof (induction fuel arbitrary: made a le)
  case 0
  then show ?case by simp
next
  case (Suc fuel)
  show ?case
  proof (cases rule: retryLoop_cases[where rc=rc and a=a and perform=perform and made=made])
    case exit
    then show ?thesis by (simp add: retryLoop_exit)
  next
    case (success x)
    then show ?thesis by (simp add: retryLoop_success)
  next
    case pending
    then show ?thesis by (simp add: retryLoop_pending)
  next
    case (give_up e)
    then show ?thesis by (simp add: retryLoop_give_up)
  next
    case (retry e)
    have le: "a \<le> \<lfloor>m\<rfloor>" using retry(1) assms(1) by (simp add: le_floor_iff)
    have "of_int a < m" using shouldRetry_True_lt[OF retry(3)] assms(1) by (simp add: jsLt_def)
    then have "of_int a < (9007199254740992 :: real)" using assms(2) by simp
    then have "a < 9007199254740992" by linarith
    then have n: "nextAttempt a = a + 1" by (simp add: nextAttempt_def)
    have "nat (\<lfloor>m\<rfloor> + 1 - (a + 1)) < fuel" using Suc.prems le by linarith
    then obtain rest where "retryLoop fuel P rc perform rnd (made + 1) (a + 1) (Some e) = Some rest"
      using Suc.IH by blast
    then show ?thesis using retry n by (simp add: retryLoop_retry)
  qed
qed

lemma finalOutcome_not_throws [simp]:
  "finalOutcome rc (Returns x) a = Returns x" "finalOutcome rc Pending a = Pending"
  by (simp_all add: finalOutcome_def)

lemma finalOutcome_retry:
  "shouldRetry rc e a = Returns b \<Longrightarrow> finalOutcome rc (Throws e) a = Throws e"
  by (simp add: finalOutcome_def)

lemma retryLoop_outcome:
  assumes "a = attemptNumber (made + 1)"
    and "retryLoop fuel P rc perform rnd made a le = Some ex"
  shows "(attempts ex = made \<and> outcome ex = Throws (orElse le fallbackError) \<and> delays ex = []
            \<and> \<not> jsLe (Num (of_int a)) (maxAttempts rc))
       \<or> (made < attempts ex
            \<and> outcome ex = finalOutcome rc (perform (attempts ex)) (attemptNumber (attempts ex))
            \<and> (\<forall>k. made < k \<and> k < attempts ex \<longrightarrow> retried rc (perform k) (attemptNumber k)))"
  using assms
proof (induction fuel arbitrary: made a le ex)
  case 0
  then show ?case by (simp add: retryLoop.simps)
next
  case (Suc fuel)
  show ?case
  proof (cases rule: retryLoop_cases[where rc=rc and a=a and perform=perform and made=made])
    case exit
    then show ?thesis using Suc.prems by (auto simp: retryLoop_exit)
  next
    case (success x)
    then show ?thesis using Suc.prems by (auto simp: retryLoop_success)
  next
    case pending
    then show ?thesis using Suc.prems by (auto simp: retryLoop_pending)
  next
    case (give_up e)
    then show ?thesis using Suc.prems by (auto simp: retryLoop_give_up)
  next
    case (retry e)
    then obtain rest where r: "retryLoop fuel P rc perform rnd (made + 1) (nextAttempt a) (Some e) = Some rest"
      and ex: "ex = rest\<lparr> delays := calculateRetryDelay P a rc (rnd (made + 1)) # delays rest \<rparr>"
      using Suc.prems by (auto simp: retryLoop_retry split: option.splits)
    have n: "nextAttempt a = attemptNumber (made + 1 + 1)"
      using Suc.prems(1) nextAttempt_attemptNumber[of "made + 1"] by simp
    have first: "retried rc (perform (made + 1)) (attemptNumber (made + 1))"
      using retry Suc.prems(1) by (simp add: retried_def)
    have fo: "finalOutcome rc (perform (made + 1)) (attemptNumber (made + 1)) = Throws e"
      using retry Suc.prems(1) by (simp add: finalOutcome_retry)
    from Suc.IH[OF n r]
    consider (stop) "attempts rest = made + 1" "outcome rest = Throws (orElse (Some e) fallbackError)"
      | (more) "made + 1 < attempts rest"
          "outcome rest = finalOutcome rc (perform (attempts rest)) (attemptNumber (attempts rest))"
          "\<forall>k. made + 1 < k \<and> k < attempts rest \<longrightarrow> retried rc (perform k) (attemptNumber k)"
      by blast
    then show ?thesis
    proof cases
      case stop
      then show ?thesis using ex fo by (auto simp: orElse_def)
    next
      case more
      have "\<forall>k. made < k \<and> k < attempts rest \<longrightarrow> retried rc (perform k) (attemptNumber k)"
      proof (intro allI impI)
        fix k assume k: "made < k \<and> k < attempts rest"
        show "retried rc (perform k) (attemptNumber k)"
        proof (cases "k = made + 1")
          case True
          then show ?thesis using first by simp
        next
          case False
          then have "made + 1 < k \<and> k < attempts rest" using k by simp
          then show ?thesis using more(3) by blast
        qed
      qed
      then show ?thesis using more ex by simp
    qed
  qed
qed

lemma retryLoop_delays:
  assumes "a = attemptNumber (made + 1)"
    and "retryLoop fuel P rc perform rnd made a le = Some ex"
  shows "delays ex = map (\<lambda>k. calculateRetryDelay P (attemptNumber k) rc (rnd k))
                       [made + 1 ..< made + 1 + length (delays ex)]
       \<and> made + length (delays ex) \<le> attempts ex
       \<and> attempts ex \<le> made + length (delays ex) + 1"
  using assms
proof (induction fuel arbitrary: made a le ex)
  case 0
  then show ?case by (simp add: retryLoop.simps)
next
  case (Suc fuel)
  show ?case
  proof (cases rule: retryLoop_cases[where rc=rc and a=a and perform=perform and made=made])
    case exit
    then show ?thesis using Suc.prems by (auto simp: retryLoop_exit)
  next
    case (success x)
    then show ?thesis using Suc.prems by (auto simp: retryLoop_success)
  next
    case pending
    then show ?thesis using Suc.prems by (auto simp: retryLoop_pending)
  next
    case (give_up e)
    then show ?thesis using Suc.prems by (auto simp: retryLoop_give_up)
  next
    case (retry e)
    then obtain rest where r: "retryLoop fuel P rc perform rnd (made + 1) (nextAttempt a) (Some e) = Some rest"
      and ex: "ex = rest\<lparr> delays := calculateRetryDelay P a rc (rnd (made + 1)) # delays rest \<rparr>"
      using Suc.prems by (auto simp: retryLoop_retry split: option.splits)
    have n: "nextAttempt a = attemptNumber (made + 1 + 1)"
      using Suc.prems(1) nextAttempt_attemptNumber[of "made + 1"] by simp
    have ih: "delays rest = map (\<lambda>k. calculateRetryDelay P (attemptNumber k) rc (rnd k))
                       [made + 1 + 1 ..< made + 1 + 1 + length (delays rest)]"
      "made + 1 + length (delays rest) \<le> attempts rest"
      "attempts rest \<le> made + 1 + length (delays rest) + 1"
      using Suc.IH[OF n r] by blast+
    have len: "length (delays ex) = length (delays rest) + 1" and at: "attempts ex = attempts rest"
      using ex by simp_all
    have u: "[made + 1 ..< made + 1 + length (delays ex)]
           = (made + 1) # [made + 1 + 1 ..< made + 1 + 1 + length (delays rest)]"
      unfolding len by (simp add: upt_rec)
    have hd: "delays ex = calculateRetryDelay P (attemptNumber (made + 1)) rc (rnd (made + 1)) # delays rest"
      using ex Suc.prems(1) by simp
    have d: "delays ex = map (\<lambda>k. calculateRetryDelay P (attemptNumber k) rc (rnd k))
                       [made + 1 ..< made + 1 + length (delays ex)]"
      unfolding u by (subst hd, subst ih(1)) simp
    have b1: "made + length (delays ex) \<le> attempts ex" using ih(2) len at by linarith
    have b2: "attempts ex \<le> made + length (delays ex) + 1" using ih(3) len at by linarith
    show ?thesis using d b1 b2 by (intro conjI)
  qed
qed

lemma retryLoop_delay_bounds:
  assumes "retryLoop fuel P rc perform rnd made a le = Some ex" "d \<in> set (delays ex)"
  shows "d = NaN \<or> (jsLe (Num 0) d \<and> jsLe d (jsMax (maxDelay rc) (Num 0)))"
  using assms
proof (induction fuel arbitrary: made a le ex)
  case 0
  then show ?case by (simp add: retryLoop.simps)
next
  case (Suc fuel)
  show ?case
  proof (cases rule: retryLoop_cases[where rc=rc and a=a and perform=perform and made=made])
    case exit
    then show ?thesis using Suc.prems by (auto simp: retryLoop_exit)
  next
    case (success x)
    then show ?thesis using Suc.prems by (auto simp: retryLoop_success)
  next
    case pending
    then show ?thesis using Suc.prems by (auto simp: retryLoop_pending)
  next
    case (give_up e)
    then show ?thesis using Suc.prems by (auto simp: retryLoop_give_up)
  next
    case (retry e)
    then obtain rest where r: "retryLoop fuel P rc perform rnd (made + 1) (nextAttempt a) (Some e) = Some rest"
      and ex: "ex = rest\<lparr> delays := calculateRetryDelay P a rc (rnd (made + 1)) # delays rest \<rparr>"
      using Suc.prems by (auto simp: retryLoop_retry split: option.splits)
    have "d = calculateRetryDelay P a rc (rnd (made + 1)) \<or> d \<in> set (delays rest)"
      using Suc.prems(2) ex by simp
    then show ?thesis
    proof
      assume "d = calculateRetryDelay P a rc (rnd (made + 1))"
      then show ?thesis using calculateRetryDelay_bounds[of P a rc "rnd (made + 1)"] by simp
    next
      assume "d \<in> set (delays rest)"
      then show ?thesis by (rule Suc.IH[OF r])
    qed
  qed
qed

text \<open>With \<^verbatim>\<open>maxAttempts = Infinity\<close> and calls that always fail with an error that is
  retried, the loop is still running after any number of iterations.\<close>

lemma retryLoop_forever:
  assumes "maxAttempts rc = PosInf" "\<forall>k. \<exists>e. perform k = Throws e \<and> (\<forall>a. shouldRetry rc e a = Returns True)"
  shows "retryLoop fuel P rc perform rnd made a le = None"
proof (induction fuel arbitrary: made a le)
  case 0
  then show ?case by (simp add: retryLoop.simps)
next
  case (Suc fuel)
  obtain e where e: "perform (made + 1) = Throws e" "shouldRetry rc e a = Returns True"
    using assms(2) by blast
  have "jsLe (Num (of_int a)) (maxAttempts rc)" using assms(1) by simp
  then show ?case using e Suc.IH by (simp add: retryLoop_retry)
qed

lemma mergedRetryConfig_default:
  "retryConfig cfg = None \<Longrightarrow> mergedRetryConfig cfg = DEFAULT_RETRY_CONFIG"
  by (simp add: mergedRetryConfig_def)

lemma attemptNumber_1 [simp]: "attemptNumber (Suc 0) = 1"
  by (simp add: attemptNumber_def)

lemma finalOutcome_settles:
  assumes "result \<noteq> Pending" "\<forall>e. shouldRetry rc e a \<noteq> Pending"
  shows "finalOutcome rc result a \<noteq> Pending"
proof (cases result)
  case (Throws e)
  then show ?thesis using assms(2)[rule_format, of e]
    by (cases "shouldRetry rc e a") (simp_all add: finalOutcome_def)
qed (use assms(1) in simp_all)

text \<open>
  Claim C6, as amended. Let \<open>maxAttempts\<close> be a number of at most \<open>2 ^ 53\<close> (3 by
  default). \<^verbatim>\<open>executeRequest\<close> then leaves its loop after at most \<open>maxAttempts\<close> calls of
  \<^verbatim>\<open>performRequest\<close> (enough iterations give a result), and after none when
  \<open>maxAttempts\<close> is below 1, \<^verbatim>\<open>NaN\<close> or \<^verbatim>\<open>-Infinity\<close>. When it made no call it throws the
  error \<open>Request failed after all retry attempts\<close>. Otherwise every call but the last
  threw and was retried, and the last call decides: its response is returned; its error
  is thrown, unless the test for a retry threw, whose error is then thrown (a
  \<^verbatim>\<open>TypeError\<close> for a \<^verbatim>\<open>retryCondition\<close> given as \<^verbatim>\<open>undefined\<close>); and the request stays
  pending when the call or the test never settles, which is the only way for it to stay
  pending. The delays are those \<^verbatim>\<open>calculateRetryDelay\<close> computes for the calls that were
  retried, and every value it computes is \<^verbatim>\<open>NaN\<close> or lies between 0 and the larger of
  \<open>maxDelay\<close> and 0.
\<close>

theorem retry_loop_bounded:
  "(maxAttempts (mergedRetryConfig cfg) = Num m \<and> m \<le> 9007199254740992 \<and> nat \<lfloor>m\<rfloor> < fuel \<longrightarrow>
      (\<exists>ex. executeRequest fuel P cfg perform rnd = Some ex))
   \<and> ((maxAttempts (mergedRetryConfig cfg) = NaN \<or> maxAttempts (mergedRetryConfig cfg) = NegInf)
        \<and> 0 < fuel \<longrightarrow>
      (\<exists>ex. executeRequest fuel P cfg perform rnd = Some ex))
   \<and> (retryConfig cfg = None \<longrightarrow>
        maxAttempts (mergedRetryConfig cfg) = Num 3 \<and> maxDelay (mergedRetryConfig cfg) = Num 30000)
   \<and> (executeRequest fuel P cfg perform rnd = Some ex \<longrightarrow>
        (maxAttempts (mergedRetryConfig cfg) = Num m \<and> m \<le> 9007199254740992 \<longrightarrow>
           real (attempts ex) \<le> max 0 m)
        \<and> (maxAttempts (mergedRetryConfig cfg) = NaN \<or> maxAttempts (mergedRetryConfig cfg) = NegInf \<longrightarrow>
             attempts ex = 0)
        \<and> (attempts ex = 0 \<longrightarrow> outcome ex = Throws fallbackError)
        \<and> (0 < attempts ex \<longrightarrow>
             outcome ex = finalOutcome (mergedRetryConfig cfg) (perform (attempts ex))
                            (attemptNumber (attempts ex)))
        \<and> (\<forall>k. 0 < k \<and> k < attempts ex \<longrightarrow>
             retried (mergedRetryConfig cfg) (perform k) (attemptNumber k))
        \<and> ((\<forall>k. perform k \<noteq> Pending) \<and> (\<forall>e a. shouldRetry (mergedRetryConfig cfg) e a \<noteq> Pending) \<longrightarrow>
             outcome ex \<noteq> Pending)
        \<and> length (delays ex) \<le> attempts ex
        \<and> delays ex = map (\<lambda>k. calculateRetryDelay P (attemptNumber k) (mergedRetryConfig cfg) (rnd k))
                         [1 ..< 1 + length (delays ex)]
        \<and> (\<forall>d\<in>set (delays ex).
              d = NaN \<or> (jsLe (Num 0) d \<and> jsLe d (jsMax (maxDelay (mergedRetryConfig cfg)) (Num 0)))))
   \<and> (calculateRetryDelay P attempt rc r = NaN
        \<or> (jsLe (Num 0) (calculateRetryDelay P attempt rc r)
            \<and> jsLe (calculateRetryDelay P attempt rc r) (jsMax (maxDelay rc) (Num 0))))"
proof -
  let ?rc = "mergedRetryConfig cfg"
  have t1: "maxAttempts ?rc = Num m \<and> m \<le> 9007199254740992 \<and> nat \<lfloor>m\<rfloor> < fuel \<longrightarrow>
      (\<exists>ex. executeRequest fuel P cfg perform rnd = Some ex)"
  proof
    assume h: "maxAttempts ?rc = Num m \<and> m \<le> 9007199254740992 \<and> nat \<lfloor>m\<rfloor> < fuel"
    then have "nat (\<lfloor>m\<rfloor> + 1 - 1) < fuel" by simp
    then show "\<exists>ex. executeRequest fuel P cfg perform rnd = Some ex"
      unfolding executeRequest_def using retryLoop_terminates[of ?rc m 1 fuel P perform rnd 0 None] h
      by blast
  qed
  have t2: "(maxAttempts ?rc = NaN \<or> maxAttempts ?rc = NegInf) \<and> 0 < fuel \<longrightarrow>
      (\<exists>ex. executeRequest fuel P cfg perform rnd = Some ex)"
  proof
    assume h: "(maxAttempts ?rc = NaN \<or> maxAttempts ?rc = NegInf) \<and> 0 < fuel"
    then obtain f where f: "fuel = Suc f" by (cases fuel) auto
    show "\<exists>ex. executeRequest fuel P cfg perform rnd = Some ex"
      unfolding executeRequest_def f using retryLoop_no_attempt[of ?rc f P perform rnd 0 1 None] h
      by blast
  qed
  have d: "retryConfig cfg = None \<longrightarrow> maxAttempts ?rc = Num 3 \<and> maxDelay ?rc = Num 30000"
    by (simp add: mergedRetryConfig_def DEFAULT_RETRY_CONFIG_def)
  have c: "calculateRetryDelay P attempt rc r = NaN
        \<or> (jsLe (Num 0) (calculateRetryDelay P attempt rc r)
            \<and> jsLe (calculateRetryDelay P attempt rc r) (jsMax (maxDelay rc) (Num 0)))"
    by (rule calculateRetryDelay_bounds)
  have e: "executeRequest fuel P cfg perform rnd = Some ex \<longrightarrow>
        (maxAttempts ?rc = Num m \<and> m \<le> 9007199254740992 \<longrightarrow> real (attempts ex) \<le> max 0 m)
        \<and> (maxAttempts ?rc = NaN \<or> maxAttempts ?rc = NegInf \<longrightarrow> attempts ex = 0)
        \<and> (attempts ex = 0 \<longrightarrow> outcome ex = Throws fallbackError)
        \<and> (0 < attempts ex \<longrightarrow>
             outcome ex = finalOutcome ?rc (perform (attempts ex)) (attemptNumber (attempts ex)))
        \<and> (\<forall>k. 0 < k \<and> k < attempts ex \<longrightarrow> retried ?rc (perform k) (attemptNumber k))
        \<and> ((\<forall>k. perform k \<noteq> Pending) \<and> (\<forall>e a. shouldRetry ?rc e a \<noteq> Pending) \<longrightarrow>
             outcome ex \<noteq> Pending)
        \<and> length (delays ex) \<le> attempts ex
        \<and> delays ex = map (\<lambda>k. calculateRetryDelay P (attemptNumber k) ?rc (rnd k))
                         [1 ..< 1 + length (delays ex)]
        \<and> (\<forall>d\<in>set (delays ex).
              d = NaN \<or> (jsLe (Num 0) d \<and> jsLe d (jsMax (maxDelay ?rc) (Num 0))))"
  proof
    assume "executeRequest fuel P cfg perform rnd = Some ex"
    then have r: "retryLoop fuel P ?rc perform rnd 0 1 None = Some ex"
      by (simp add: executeRequest_def)
    have a1: "(1::int) = attemptNumber (0 + 1)" by simp
    have b1: "maxAttempts ?rc = Num m \<and> m \<le> 9007199254740992 \<longrightarrow> real (attempts ex) \<le> max 0 m"
    proof
      assume h: "maxAttempts ?rc = Num m \<and> m \<le> 9007199254740992"
      have "int (attempts ex) \<le> int 0 + max 0 (\<lfloor>m\<rfloor> + 1 - 1)"
        using retryLoop_attempts[of ?rc m fuel P perform rnd 0 1 None ex] h r by blast
      then have i: "int (attempts ex) \<le> max 0 \<lfloor>m\<rfloor>" by simp
      show "real (attempts ex) \<le> max 0 m"
      proof (cases "0 \<le> m")
        case True
        then have "int (attempts ex) \<le> \<lfloor>m\<rfloor>" using i by simp
        then have "real_of_int (int (attempts ex)) \<le> m" by (simp add: le_floor_iff)
        then show ?thesis using True by simp
      next
        case False
        then have "\<lfloor>m\<rfloor> \<le> 0" by (simp add: floor_le_iff)
        then have "attempts ex = 0" using i by simp
        then show ?thesis by simp
      qed
    qed
    have b2: "maxAttempts ?rc = NaN \<or> maxAttempts ?rc = NegInf \<longrightarrow> attempts ex = 0"
    proof
      assume h: "maxAttempts ?rc = NaN \<or> maxAttempts ?rc = NegInf"
      obtain f where f: "fuel = Suc f" using r by (cases fuel) (auto simp: retryLoop.simps)
      show "attempts ex = 0"
        using retryLoop_no_attempt[OF h, of f P perform rnd 0 1 None] r unfolding f by auto
    qed
    have o: "(attempts ex = 0 \<longrightarrow> outcome ex = Throws fallbackError)
        \<and> (0 < attempts ex \<longrightarrow>
             outcome ex = finalOutcome ?rc (perform (attempts ex)) (attemptNumber (attempts ex)))
        \<and> (\<forall>k. 0 < k \<and> k < attempts ex \<longrightarrow> retried ?rc (perform k) (attemptNumber k))"
      using retryLoop_outcome[OF a1 r] by (auto simp: orElse_def)
    have p: "(\<forall>k. perform k \<noteq> Pending) \<and> (\<forall>e a. shouldRetry ?rc e a \<noteq> Pending) \<longrightarrow>
             outcome ex \<noteq> Pending"
    proof
      assume h: "(\<forall>k. perform k \<noteq> Pending) \<and> (\<forall>e a. shouldRetry ?rc e a \<noteq> Pending)"
      show "outcome ex \<noteq> Pending"
      proof (cases "attempts ex = 0")
        case True
        then show ?thesis using o by simp
      next
        case False
        then have "outcome ex = finalOutcome ?rc (perform (attempts ex)) (attemptNumber (attempts ex))"
          using o by simp
        then show ?thesis using finalOutcome_settles[of "perform (attempts ex)" ?rc] h by simp
      qed
    qed
    have dl: "delays ex = map (\<lambda>k. calculateRetryDelay P (attemptNumber k) ?rc (rnd k))
                       [0 + 1 ..< 0 + 1 + length (delays ex)]
       \<and> 0 + length (delays ex) \<le> attempts ex"
      using retryLoop_delays[OF a1 r] by blast
    have db: "\<forall>d\<in>set (delays ex).
              d = NaN \<or> (jsLe (Num 0) d \<and> jsLe d (jsMax (maxDelay ?rc) (Num 0)))"
      using retryLoop_delay_bounds[OF r] by blast
    show "(maxAttempts ?rc = Num m \<and> m \<le> 9007199254740992 \<longrightarrow> real (attempts ex) \<le> max 0 m)
        \<and> (maxAttempts ?rc = NaN \<or> maxAttempts ?rc = NegInf \<longrightarrow> attempts ex = 0)
        \<and> (attempts ex = 0 \<longrightarrow> outcome ex = Throws fallbackError)
        \<and> (0 < attempts ex \<longrightarrow>
             outcome ex = finalOutcome ?rc (perform (attempts ex)) (attemptNumber (attempts ex)))
        \<and> (\<forall>k. 0 < k \<and> k < attempts ex \<longrightarrow> retried ?rc (perform k) (attemptNumber k))
        \<and> ((\<forall>k. perform k \<noteq> Pending) \<and> (\<forall>e a. shouldRetry ?rc e a \<noteq> Pending) \<longrightarrow>
             outcome ex \<noteq> Pending)
        \<and> length (delays ex) \<le> attempts ex
        \<and> delays ex = map (\<lambda>k. calculateRetryDelay P (attemptNumber k) ?rc (rnd k))
                         [1 ..< 1 + length (delays ex)]
        \<and> (\<forall>d\<in>set (delays ex).
              d = NaN \<or> (jsLe (Num 0) d \<and> jsLe d (jsMax (maxDelay ?rc) (Num 0))))"
      using b1 b2 o p dl db by simp
  qed
  show ?thesis using t1 t2 d e c by (intro conjI)
qed

lemma mergedRetryConfig_sample: "mergedRetryConfig sampleConfig = DEFAULT_RETRY_CONFIG"
  by (simp add: mergedRetryConfig_def sampleConfig_def)

lemma shouldRetry_default_network:
  "a < 3 \<Longrightarrow> shouldRetry DEFAULT_RETRY_CONFIG networkError a = Returns True"
  by (simp add: shouldRetry_def DEFAULT_RETRY_CONFIG_def jsLt_def defaultRetryCondition_def
        networkError_def)

lemma delay_sample:
  "calculateRetryDelay samplePlatform 1 DEFAULT_RETRY_CONFIG (1 / 2) = Num 1000"
  "calculateRetryDelay samplePlatform 2 DEFAULT_RETRY_CONFIG (1 / 2) = Num 2000"
  by (simp_all add: calculateRetryDelay_def DEFAULT_RETRY_CONFIG_def samplePlatform_def Let_def
        jsPow_def jsSub_def jsMin_def jsMax_def)

lemma nextAttempt_small [simp]: "nextAttempt 1 = 2" "nextAttempt 2 = 3"
  by (simp_all add: nextAttempt_def)

lemma executeRequest_flaky:
  "executeRequest 5 samplePlatform sampleConfig flakyPerform (\<lambda>k. 1 / 2)
     = Some \<lparr> outcome = Returns ''ok'', attempts = 3, delays = [Num 1000, Num 2000] \<rparr>"
proof -
  have mx: "maxAttempts DEFAULT_RETRY_CONFIG = Num 3" by (simp add: DEFAULT_RETRY_CONFIG_def)
  show ?thesis
    by (simp add: executeRequest_def mergedRetryConfig_sample retryLoop.simps numeral_eq_Suc
          flakyPerform_def shouldRetry_default_network delay_sample nextAttempt_def mx)
qed

lemma shouldRetry_default_settles: "shouldRetry DEFAULT_RETRY_CONFIG e a \<noteq> Pending"
  by (simp add: shouldRetry_def DEFAULT_RETRY_CONFIG_def)

lemma executeRequest_no_attempts:
  "executeRequest 5 samplePlatform
     (sampleConfig\<lparr> retryConfig := Some (DEFAULT_RETRY_CONFIG\<lparr> maxAttempts := NaN \<rparr>) \<rparr>)
     flakyPerform (\<lambda>k. 1 / 2)
   = Some \<lparr> outcome = Throws fallbackError, attempts = 0, delays = [] \<rparr>"
proof -
  have five: "(5::nat) = Suc 4" by simp
  show ?thesis
    unfolding executeRequest_def five
    by (subst retryLoop_exit) (simp_all add: mergedRetryConfig_def DEFAULT_RETRY_CONFIG_def orElse_def)
qed

text \<open>Two network errors, then a response: three calls and the delays 1000 and 2000
  (the random number 1/2 gives no jitter). With \<open>maxAttempts = NaN\<close> no call is made.\<close>

theorem retry_loop_bounded_witness:
  "executeRequest 5 samplePlatform sampleConfig flakyPerform (\<lambda>k. 1 / 2)
     = Some \<lparr> outcome = Returns ''ok'', attempts = 3, delays = [Num 1000, Num 2000] \<rparr>
   \<and> maxAttempts (mergedRetryConfig sampleConfig) = Num 3
   \<and> maxDelay (mergedRetryConfig sampleConfig) = Num 30000
   \<and> flakyPerform 3 = Returns ''ok''
   \<and> retried (mergedRetryConfig sampleConfig) (flakyPerform 2) (attemptNumber 2)
   \<and> jsLe (Num 2000) (jsMax (maxDelay (mergedRetryConfig sampleConfig)) (Num 0))
   \<and> executeRequest 5 samplePlatform
        (sampleConfig\<lparr> retryConfig := Some (DEFAULT_RETRY_CONFIG\<lparr> maxAttempts := NaN \<rparr>) \<rparr>)
        flakyPerform (\<lambda>k. 1 / 2)
      = Some \<lparr> outcome = Throws (Error ''Error'' ''Request failed after all retry attempts'' None),
               attempts = 0, delays = [] \<rparr>"
proof -
  let ?ex = "\<lparr> outcome = Returns ''ok'', attempts = 3, delays = [Num 1000, Num 2000] \<rparr> :: string Execution"
  let ?nocfg = "sampleConfig\<lparr> retryConfig := Some (DEFAULT_RETRY_CONFIG\<lparr> maxAttempts := NaN \<rparr>) \<rparr>"
  let ?none = "\<lparr> outcome = Throws fallbackError, attempts = 0, delays = [] \<rparr> :: string Execution"
  have n: "retryConfig sampleConfig = None" by (simp add: sampleConfig_def)
  have f3: "flakyPerform 3 = Returns ''ok''" by (simp add: flakyPerform_def)
  have mx: "maxAttempts (mergedRetryConfig sampleConfig) = Num 3 \<and> (3::real) \<le> 9007199254740992
            \<and> nat \<lfloor>3::real\<rfloor> < 5"
    by (simp add: mergedRetryConfig_sample DEFAULT_RETRY_CONFIG_def)
  have np: "(\<forall>k. flakyPerform k \<noteq> Pending)
            \<and> (\<forall>e a. shouldRetry (mergedRetryConfig sampleConfig) e a \<noteq> Pending)"
    by (simp add: flakyPerform_def mergedRetryConfig_sample shouldRetry_default_settles)
  have pos: "0 < attempts ?ex" by simp
  from retry_loop_bounded[of sampleConfig 3 5 samplePlatform flakyPerform "\<lambda>k. 1 / 2" ?ex]
    executeRequest_flaky n mx np pos
  have "maxAttempts (mergedRetryConfig sampleConfig) = Num 3"
    and "maxDelay (mergedRetryConfig sampleConfig) = Num 30000"
    and "real (attempts ?ex) \<le> max 0 3"
    and "outcome ?ex = finalOutcome (mergedRetryConfig sampleConfig) (flakyPerform (attempts ?ex))
                            (attemptNumber (attempts ?ex))"
    and "outcome ?ex \<noteq> Pending"
    and "\<forall>k. 0 < k \<and> k < attempts ?ex \<longrightarrow>
             retried (mergedRetryConfig sampleConfig) (flakyPerform k) (attemptNumber k)"
    and "\<forall>d\<in>set (delays ?ex).
              d = NaN \<or> (jsLe (Num 0) d \<and> jsLe d (jsMax (maxDelay (mergedRetryConfig sampleConfig)) (Num 0)))"
    by blast+
  then have a: "maxAttempts (mergedRetryConfig sampleConfig) = Num 3
     \<and> maxDelay (mergedRetryConfig sampleConfig) = Num 30000
     \<and> retried (mergedRetryConfig sampleConfig) (flakyPerform 2) (attemptNumber 2)
     \<and> jsLe (Num 2000) (jsMax (maxDelay (mergedRetryConfig sampleConfig)) (Num 0))"
    by simp
  have m0: "(maxAttempts (mergedRetryConfig ?nocfg) = NaN \<or> maxAttempts (mergedRetryConfig ?nocfg) = NegInf)
            \<and> (0::nat) < 5"
    by (simp add: mergedRetryConfig_def DEFAULT_RETRY_CONFIG_def)
  from retry_loop_bounded[of ?nocfg 0 5 samplePlatform flakyPerform "\<lambda>k. 1 / 2" ?none]
    executeRequest_no_attempts m0
  have "attempts ?none = 0" and "attempts ?none = 0 \<longrightarrow> outcome ?none = Throws fallbackError"
    by blast+
  then have b: "executeRequest 5 samplePlatform ?nocfg flakyPerform (\<lambda>k. 1 / 2)
      = Some \<lparr> outcome = Throws (Error ''Error'' ''Request failed after all retry attempts'' None),
               attempts = 0, delays = [] \<rparr>"
    using executeRequest_no_attempts by (simp add: fallbackError_def)
  show ?thesis using a b executeRequest_flaky f3 by blast
qed

lemma attemptOutcome_never:
  "attemptOutcome sampleConfig (slowSessionNetwork\<lparr> sessionTime := None \<rparr>) = Pending"
  by (simp add: attemptOutcome_def performRequest_def)

text \<open>
  Claim C6 as stated fails. With \<open>maxDelay = -1\<close> the delay is 0, above \<open>maxDelay\<close>. The
  delay of attempt 1026 is \<^verbatim>\<open>NaN\<close>, neither non-negative nor at most \<open>maxDelay\<close>: the power
  overflows and the jitter is \<^verbatim>\<open>-Infinity\<close>. With \<open>maxAttempts = 0\<close> no call is made and
  the error thrown is not that of a call. A call whose session lookup never returns
  leaves the request pending after one call. With \<^verbatim>\<open>retryCondition: undefined\<close> the
  first failure ends the request with a \<^verbatim>\<open>TypeError\<close>, not with the error of the call.
  With \<open>maxAttempts = Infinity\<close> and a network that stays down the loop is still running
  after five attempts.
\<close>

theorem retry_delay_counterexample:
  "calculateRetryDelay samplePlatform 1 (DEFAULT_RETRY_CONFIG\<lparr> maxDelay := Num (- 1) \<rparr>) (1 / 2) = Num 0
   \<and> \<not> jsLe (Num 0) (maxDelay (DEFAULT_RETRY_CONFIG\<lparr> maxDelay := Num (- 1) \<rparr>))
   \<and> calculateRetryDelay samplePlatform 1026 DEFAULT_RETRY_CONFIG (1 / 4) = NaN
   \<and> \<not> jsLe (Num 0) NaN \<and> \<not> jsLe NaN (maxDelay DEFAULT_RETRY_CONFIG)
   \<and> executeRequest 5 samplePlatform
        (sampleConfig\<lparr> retryConfig := Some (DEFAULT_RETRY_CONFIG\<lparr> maxAttempts := Num 0 \<rparr>) \<rparr>)
        flakyPerform (\<lambda>k. 1 / 2)
      = Some \<lparr> outcome = Throws (Error ''Error'' ''Request failed after all retry attempts'' None),
               attempts = 0, delays = [] \<rparr>
   \<and> executeRequest 5 samplePlatform sampleConfig
        (\<lambda>k. attemptOutcome sampleConfig (slowSessionNetwork\<lparr> sessionTime := None \<rparr>)) (\<lambda>k. 1 / 2)
      = Some \<lparr> outcome = Pending, attempts = 1, delays = [] \<rparr>
   \<and> flakyPerform 1 = Throws (Error ''NetworkError'' ''Network error'' None)
   \<and> executeRequest 5 samplePlatform
        (sampleConfig\<lparr> retryConfig := Some (DEFAULT_RETRY_CONFIG\<lparr> retryCondition := Undefined \<rparr>) \<rparr>)
        flakyPerform (\<lambda>k. 1 / 2)
      = Some \<lparr> outcome = Throws (Error ''TypeError'' ''retryConfig.retryCondition is not a function'' None),
               attempts = 1, delays = [] \<rparr>
   \<and> executeRequest 5 samplePlatform
        (sampleConfig\<lparr> retryConfig := Some (DEFAULT_RETRY_CONFIG\<lparr> maxAttempts := PosInf \<rparr>) \<rparr>)
        (\<lambda>k. Throws networkError) (\<lambda>k. 1 / 2)
      = None"
proof -
  have five: "(5::nat) = Suc 4" by simp
  have a: "calculateRetryDelay samplePlatform 1 (DEFAULT_RETRY_CONFIG\<lparr> maxDelay := Num (- 1) \<rparr>) (1 / 2) = Num 0"
    by (simp add: calculateRetryDelay_def DEFAULT_RETRY_CONFIG_def samplePlatform_def Let_def
        jsPow_def jsSub_def jsMin_def jsMax_def)
  have b: "calculateRetryDelay samplePlatform 1026 DEFAULT_RETRY_CONFIG (1 / 4) = NaN"
    by (simp add: calculateRetryDelay_def DEFAULT_RETRY_CONFIG_def samplePlatform_def Let_def
        jsPow_def jsSub_def jsMin_def jsMax_def infinityTimes_def)
  have c: "executeRequest 5 samplePlatform
        (sampleConfig\<lparr> retryConfig := Some (DEFAULT_RETRY_CONFIG\<lparr> maxAttempts := Num 0 \<rparr>) \<rparr>)
        flakyPerform (\<lambda>k. 1 / 2)
      = Some \<lparr> outcome = Throws (Error ''Error'' ''Request failed after all retry attempts'' None),
               attempts = 0, delays = [] \<rparr>"
    unfolding executeRequest_def five
    by (subst retryLoop_exit)
       (simp_all add: mergedRetryConfig_def DEFAULT_RETRY_CONFIG_def orElse_def fallbackError_def)
  have d: "executeRequest 5 samplePlatform sampleConfig
        (\<lambda>k. attemptOutcome sampleConfig (slowSessionNetwork\<lparr> sessionTime := None \<rparr>)) (\<lambda>k. 1 / 2)
      = Some \<lparr> outcome = Pending, attempts = 1, delays = [] \<rparr>"
    unfolding executeRequest_def five
    by (subst retryLoop_pending)
       (simp_all add: mergedRetryConfig_sample DEFAULT_RETRY_CONFIG_def attemptOutcome_never)
  have e: "executeRequest 5 samplePlatform
        (sampleConfig\<lparr> retryConfig := Some (DEFAULT_RETRY_CONFIG\<lparr> retryCondition := Undefined \<rparr>) \<rparr>)
        flakyPerform (\<lambda>k. 1 / 2)
      = Some \<lparr> outcome = Throws (Error ''TypeError'' ''retryConfig.retryCondition is not a function'' None),
               attempts = 1, delays = [] \<rparr>"
    unfolding executeRequest_def five
    by (subst retryLoop_give_up[where e = networkError])
       (simp_all add: mergedRetryConfig_def DEFAULT_RETRY_CONFIG_def flakyPerform_def
          shouldRetry_def jsLt_def finalOutcome_def notAFunctionError_def)
  have f: "executeRequest 5 samplePlatform
        (sampleConfig\<lparr> retryConfig := Some (DEFAULT_RETRY_CONFIG\<lparr> maxAttempts := PosInf \<rparr>) \<rparr>)
        (\<lambda>k. Throws networkError) (\<lambda>k. 1 / 2)
      = None"
    unfolding executeRequest_def
    by (rule retryLoop_forever)
       (simp_all add: mergedRetryConfig_def DEFAULT_RETRY_CONFIG_def shouldRetry_def jsLt_def
          defaultRetryCondition_def networkError_def)
  have g: "flakyPerform 1 = Throws (Error ''NetworkError'' ''Network error'' None)"
    by (simp add: flakyPerform_def networkError_def)
  show ?thesis using a b c d e f g by (simp add: DEFAULT_RETRY_CONFIG_def)
qed

section \<open>The text of the stream reader\<close>












lemma core_emit: "core (emit e h) = core h"
  by (simp add: core_def emit_def)

lemma core_updateConnectionHealth: "core (updateConnectionHealth u h) = core h"
  by (simp add: updateConnectionHealth_def Let_def core_def emit_def)

lemma core_updateProgress: "core (updateProgress u h) = core h"
  by (simp add: updateProgress_def Let_def core_def emit_def)

lemma core_errorToast: "core (errorToast ev h) = core h"
  by (simp add: errorToast_def core_emit)

lemma core_addError: "core (addError m now h) = core h"
proof (cases "isMountedRef h")
  case True
  have "core (h\<lparr> streamState := s \<rparr>) = core h" for s by (simp add: core_def)
  then show ?thesis using True by (simp add: addError_def Let_def core_errorToast core_emit)
next
  case False
  then show ?thesis by (simp add: addError_def)
qed

lemma core_notifyMessage: "core (notifyMessage m h) = core h"
  by (simp add: notifyMessage_def core_emit)

lemma core_fields:
  assumes "core h' = core h"
  shows "textContent h' = textContent h" "isMountedRef h' = isMountedRef h"
    "status h' = status h" "currentRunIdRef h' = currentRunIdRef h"
    "agentRunId h' = agentRunId h"
  using assms by (simp_all add: core_def)

lemma isMountedRef_dispatchMessage:
  "isMountedRef (dispatchMessage m pc pm h) = isMountedRef h"
proof -
  have n: "\<And>h. isMountedRef (notifyMessage m h) = isMountedRef h"
    by (rule core_fields(2)[OF core_notifyMessage])
  have e: "\<And>x h. isMountedRef (emit x h) = isMountedRef h"
    by (rule core_fields(2)[OF core_emit])
  have p: "\<And>u h. isMountedRef (updateProgress u h) = isMountedRef h"
    by (rule core_fields(2)[OF core_updateProgress])
  show ?thesis by (simp add: dispatchMessage_def n e p)
qed

lemma isMountedRef_handleStreamMessage:
  "isMountedRef (handleStreamMessage json raw now h) = isMountedRef h"
proof (cases "isMountedRef h")
  case False
  then show ?thesis by (simp add: handleStreamMessage_def)
next
  case True
  have c: "\<And>u h. isMountedRef (updateConnectionHealth u h) = isMountedRef h"
    by (rule core_fields(2)[OF core_updateConnectionHealth])
  have p: "\<And>u h. isMountedRef (updateProgress u h) = isMountedRef h"
    by (rule core_fields(2)[OF core_updateProgress])
  have a: "\<And>m now h. isMountedRef (addError m now h) = isMountedRef h"
    by (rule core_fields(2)[OF core_addError])
  show ?thesis
    by (simp add: handleStreamMessage_def Let_def c p a isMountedRef_dispatchMessage
          split: option.splits)
qed


lemma isMountedRef_hookRun_messages:
  "\<forall>ev\<in>set evs. \<exists>raw now. ev = StreamMessage raw now \<Longrightarrow>
   isMountedRef (hookRun json h evs) = isMountedRef h"
  unfolding hookRun_def
proof (induction evs arbitrary: h)
  case Nil
  then show ?case by simp
next
  case (Cons ev evs)
  then obtain raw now where ev: "ev = StreamMessage raw now" by auto
  have "isMountedRef (foldl (hookStep json) (hookStep json h ev) evs) = isMountedRef (hookStep json h ev)"
    using Cons by simp
  then show ?case using ev by (simp add: isMountedRef_handleStreamMessage)
qed








section \<open>Stopping the stream\<close>


lemma stopStreaming_noop:
  "\<not> isMountedRef h \<or> \<not> truthy (currentRunIdRef h) \<Longrightarrow> stopStreaming r now h = h"
  by (auto simp: stopStreaming_def)

lemma core_stopStreaming_success:
  assumes "isMountedRef h" "truthy (currentRunIdRef h)"
  shows "core (stopStreaming None now h)
       = ((None, ''stopped'', textContent h, toolCall h, error h),
          (False, True, None, False, False, reconnectTimeoutRef h))"
proof -
  have e: "\<And>x h. core (emit x h) = core h" by (rule core_emit)
  have p: "\<And>u h. core (updateProgress u h) = core h" by (rule core_updateProgress)
  show ?thesis
    using assms
    by (cases "streamCleanupRef h") (simp_all add: stopStreaming_def Let_def e p, simp_all add: core_def emit_def)
qed

lemma stopStreaming_success:
  assumes "isMountedRef h" "truthy (currentRunIdRef h)"
  shows "status (stopStreaming None now h) = ''stopped''"
    "agentRunId (stopStreaming None now h) = None"
    "currentRunIdRef (stopStreaming None now h) = None"
  using core_stopStreaming_success[OF assms, of now] by (simp_all add: core_def)

lemma effects_emit: "effects (emit x h) = effects h @ [x]"
  by (simp add: emit_def)

lemma effects_updateProgress_prefix: "prefix (effects h) (effects (updateProgress u h))"
  by (simp add: updateProgress_def Let_def emit_def)

lemma stopStreaming_calls_stopAgent:
  assumes "isMountedRef h" "truthy (currentRunIdRef h)"
  shows "StopAgent (the (currentRunIdRef h)) \<in> set (effects (stopStreaming r now h))"
proof -
  let ?h1 = "emit (StopAgent (the (currentRunIdRef h))) h"
  have a: "StopAgent (the (currentRunIdRef h)) \<in> set (effects ?h1)" by (simp add: effects_emit)
  have mono_up: "\<And>u g. set (effects g) \<subseteq> set (effects (updateProgress u g))"
    using effects_updateProgress_prefix by (metis set_mono_prefix)
  show ?thesis
  proof (cases r)
    case None
    let ?h2 = "(if streamCleanupRef ?h1 then (emit StreamCleanup ?h1)\<lparr> streamCleanupRef := False \<rparr> else ?h1)"
    have "StopAgent (the (currentRunIdRef h)) \<in> set (effects ?h2)"
      using a by (simp add: effects_emit)
    then have "StopAgent (the (currentRunIdRef h)) \<in> set (effects (?h2\<lparr> heartbeatIntervalRef := False, statusPollIntervalRef := False \<rparr>\<lparr> status := ''stopped'', agentRunId := None, currentRunIdRef := None \<rparr>))"
      by simp
    then have "StopAgent (the (currentRunIdRef h)) \<in> set (effects (updateProgress
                        \<lparr> up_percentage = Some 0, up_currentStep = Some ''Stopped'',
                          up_estimatedTimeRemaining = None, up_completedSteps = None \<rparr> (?h2\<lparr> heartbeatIntervalRef := False, statusPollIntervalRef := False \<rparr>\<lparr> status := ''stopped'', agentRunId := None, currentRunIdRef := None \<rparr>)))"
      using mono_up by blast
    then show ?thesis
      using assms None by (simp add: stopStreaming_def Let_def effects_emit)
  next
    case (Some err)
    have "set (effects g) \<subseteq> set (effects (addError m now g))" for m g
      by (auto simp: addError_def Let_def errorToast_def emit_def)
    then show ?thesis
      using assms Some a by (auto simp: stopStreaming_def Let_def)
  qed
qed



lemma core_dispatch_status:
  "status (dispatchMessage m pc pm h) = status h
   \<and> currentRunIdRef (dispatchMessage m pc pm h) = currentRunIdRef h"
proof -
  have n: "\<And>h. status (notifyMessage m h) = status h \<and> currentRunIdRef (notifyMessage m h) = currentRunIdRef h"
    using core_fields(3,4)[OF core_notifyMessage] by blast
  have e: "\<And>x h. status (emit x h) = status h \<and> currentRunIdRef (emit x h) = currentRunIdRef h"
    using core_fields(3,4)[OF core_emit] by blast
  have p: "\<And>u h. status (updateProgress u h) = status h \<and> currentRunIdRef (updateProgress u h) = currentRunIdRef h"
    using core_fields(3,4)[OF core_updateProgress] by blast
  show ?thesis by (simp add: dispatchMessage_def n e p)
qed

lemma handleStreamMessage_status:
  "(status (handleStreamMessage json raw now h) = status h
      \<or> status (handleStreamMessage json raw now h) = ''streaming'')
   \<and> currentRunIdRef (handleStreamMessage json raw now h) = currentRunIdRef h"
proof (cases "isMountedRef h")
  case False
  then show ?thesis by (simp add: handleStreamMessage_def)
next
  case True
  have c: "\<And>u h. status (updateConnectionHealth u h) = status h \<and> currentRunIdRef (updateConnectionHealth u h) = currentRunIdRef h"
    using core_fields(3,4)[OF core_updateConnectionHealth] by blast
  have p: "\<And>u h. status (updateProgress u h) = status h \<and> currentRunIdRef (updateProgress u h) = currentRunIdRef h"
    using core_fields(3,4)[OF core_updateProgress] by blast
  have a: "\<And>m now h. status (addError m now h) = status h \<and> currentRunIdRef (addError m now h) = currentRunIdRef h"
    using core_fields(3,4)[OF core_addError] by blast
  show ?thesis
    by (simp add: handleStreamMessage_def Let_def c p a core_dispatch_status split: option.splits)
qed

lemma startStreaming_status:
  "isMountedRef h \<Longrightarrow> status (startStreaming run res now h) \<noteq> ''stopped''"
proof -
  assume m: "isMountedRef h"
  have p: "\<And>u h. status (updateProgress u h) = status h"
    by (rule core_fields(3)[OF core_updateProgress])
  have e: "\<And>x h. status (emit x h) = status h"
    by (rule core_fields(3)[OF core_emit])
  have a: "\<And>m now h. status (addError m now h) = status h"
    by (rule core_fields(3)[OF core_addError])
  show ?thesis
    using m by (cases res) (simp_all add: startStreaming_def Let_def p e a)
qed

lemma hookStep_stoppedMeansCleared:
  assumes "stoppedMeansCleared h"
  shows "stoppedMeansCleared (hookStep json h ev)"
proof (cases ev)
  case (StartStreaming run res now)
  show ?thesis
  proof (cases "isMountedRef h")
    case True
    then show ?thesis using StartStreaming startStreaming_status[OF True, of run res now]
      by (simp add: stoppedMeansCleared_def)
  next
    case False
    then show ?thesis using StartStreaming assms by (simp add: startStreaming_def)
  qed
next
  case (StopStreaming res now)
  show ?thesis
  proof (cases "isMountedRef h \<and> truthy (currentRunIdRef h)")
    case False
    then have "stopStreaming res now h = h" using stopStreaming_noop[of h res now] by blast
    then show ?thesis using StopStreaming assms by simp
  next
    case True
    show ?thesis
    proof (cases res)
      case None
      then show ?thesis using StopStreaming True stopStreaming_success(3)[of h now]
        by (simp add: stoppedMeansCleared_def)
    next
      case (Some err)
      have "core (stopStreaming (Some err) now h) = core h"
        using True by (simp add: stopStreaming_def Let_def core_addError core_emit)
      then have "status (stopStreaming (Some err) now h) = status h"
        "currentRunIdRef (stopStreaming (Some err) now h) = currentRunIdRef h"
        by (simp_all add: core_def)
      then show ?thesis using StopStreaming Some assms by (simp add: stoppedMeansCleared_def)
    qed
  qed
next
  case (StreamMessage raw now)
  have "status (handleStreamMessage json raw now h) = ''stopped'' \<longrightarrow> status h = ''stopped''"
    using handleStreamMessage_status[of json raw now h] by auto
  then show ?thesis
    using StreamMessage assms handleStreamMessage_status[of json raw now h]
    by (simp add: stoppedMeansCleared_def)
next
  case Unmount
  then show ?thesis using assms by (simp add: stoppedMeansCleared_def)
qed

lemma hookRun_stoppedMeansCleared:
  "stoppedMeansCleared h \<Longrightarrow> stoppedMeansCleared (hookRun json h evs)"
  unfolding hookRun_def
  by (induction evs arbitrary: h) (simp_all add: hookStep_stoppedMeansCleared)

lemma initialHook_stoppedMeansCleared: "stoppedMeansCleared (initialHook t)"
  by (simp add: stoppedMeansCleared_def initialHook_def)

text \<open>
  Claim C7, as amended. \<^verbatim>\<open>stopStreaming\<close> is a no-op, leaving the whole state unchanged and
  calling nothing, whenever the component is unmounted or the current run id is cleared.
  From a state with a run id, a stop whose \<^verbatim>\<open>stopAgent\<close> call succeeds ends with the
  status \<open>stopped\<close> and both run ids cleared, so a second stop is a no-op: the operation is
  idempotent; \<^verbatim>\<open>stopAgent\<close> is called in such a state, whether the call succeeds or not.
  In every state the hook can reach, the status \<open>stopped\<close> means that the run id is
  cleared, so stopping a stopped run is a no-op. Nothing clears the run id when a run
  ends by itself: that case is not part of the amended claim.
\<close>

theorem stop_is_idempotent:
  "(\<not> isMountedRef h \<or> \<not> truthy (currentRunIdRef h) \<longrightarrow> stopStreaming r now h = h)
   \<and> (isMountedRef h \<and> truthy (currentRunIdRef h) \<longrightarrow>
         status (stopStreaming None now h) = ''stopped''
         \<and> agentRunId (stopStreaming None now h) = None
         \<and> currentRunIdRef (stopStreaming None now h) = None
         \<and> stopStreaming r' now' (stopStreaming None now h) = stopStreaming None now h
         \<and> StopAgent (the (currentRunIdRef h)) \<in> set (effects (stopStreaming r now h)))
   \<and> (status (hookRun json (initialHook t) evs) = ''stopped'' \<longrightarrow>
         currentRunIdRef (hookRun json (initialHook t) evs) = None
         \<and> stopStreaming r now (hookRun json (initialHook t) evs) = hookRun json (initialHook t) evs)"
proof -
  have a: "\<not> isMountedRef h \<or> \<not> truthy (currentRunIdRef h) \<longrightarrow> stopStreaming r now h = h"
    using stopStreaming_noop[of h r now] by blast
  have b: "isMountedRef h \<and> truthy (currentRunIdRef h) \<longrightarrow>
         status (stopStreaming None now h) = ''stopped''
         \<and> agentRunId (stopStreaming None now h) = None
         \<and> currentRunIdRef (stopStreaming None now h) = None
         \<and> stopStreaming r' now' (stopStreaming None now h) = stopStreaming None now h
         \<and> StopAgent (the (currentRunIdRef h)) \<in> set (effects (stopStreaming r now h))"
  proof
    assume h: "isMountedRef h \<and> truthy (currentRunIdRef h)"
    then have m: "isMountedRef h" and t: "truthy (currentRunIdRef h)" by simp_all
    have c: "currentRunIdRef (stopStreaming None now h) = None"
      by (rule stopStreaming_success(3)[OF m t])
    then have "\<not> truthy (currentRunIdRef (stopStreaming None now h))" by (simp add: truthy_def)
    then have "stopStreaming r' now' (stopStreaming None now h) = stopStreaming None now h"
      using stopStreaming_noop by blast
    then show "status (stopStreaming None now h) = ''stopped''
         \<and> agentRunId (stopStreaming None now h) = None
         \<and> currentRunIdRef (stopStreaming None now h) = None
         \<and> stopStreaming r' now' (stopStreaming None now h) = stopStreaming None now h
         \<and> StopAgent (the (currentRunIdRef h)) \<in> set (effects (stopStreaming r now h))"
      using stopStreaming_success[OF m t, of now] stopStreaming_calls_stopAgent[OF m t, of r now]
      by simp
  qed
  have c: "status (hookRun json (initialHook t) evs) = ''stopped'' \<longrightarrow>
         currentRunIdRef (hookRun json (initialHook t) evs) = None
         \<and> stopStreaming r now (hookRun json (initialHook t) evs) = hookRun json (initialHook t) evs"
  proof
    assume s: "status (hookRun json (initialHook t) evs) = ''stopped''"
    have "stoppedMeansCleared (hookRun json (initialHook t) evs)"
      by (rule hookRun_stoppedMeansCleared[OF initialHook_stoppedMeansCleared])
    then have n: "currentRunIdRef (hookRun json (initialHook t) evs) = None"
      using s by (simp add: stoppedMeansCleared_def)
    then have "\<not> truthy (currentRunIdRef (hookRun json (initialHook t) evs))"
      by (simp add: truthy_def)
    then show "currentRunIdRef (hookRun json (initialHook t) evs) = None
         \<and> stopStreaming r now (hookRun json (initialHook t) evs) = hookRun json (initialHook t) evs"
      using n stopStreaming_noop by blast
  qed
  show ?thesis using a b c by (intro conjI)
qed

lemmas hook_eval = hookRun_def startStreaming_def handleStreamMessage_def stopStreaming_def
  initialHook_def updateProgress_def updateConnectionHealth_def emit_def truthy_def orElse_def
  Let_def processData_def trim_def isSpace_def dispatchMessage_def notifyMessage_def
  sampleJson_def sampleMessage_def

lemma completedHook_fields:
  "isMountedRef completedHook" "currentRunIdRef completedHook = Some ''run-1''"
  "status completedHook = ''streaming''"
  "progress (streamState completedHook)
     = \<lparr> percentage = 100, currentStep = ''Completed'', estimatedTimeRemaining = None,
         completedSteps = [''Connecting...'', ''Stream connected'', ''Processing response''] \<rparr>"
  by (simp_all add: completedHook_def hook_eval)



text \<open>In \<open>completedHook\<close> a stop succeeds and a second stop changes nothing; in the
  initial state, with no run id, a stop changes nothing.\<close>

theorem stop_is_idempotent_witness:
  "isMountedRef completedHook \<and> truthy (currentRunIdRef completedHook)
   \<and> status (stopStreaming None 4 completedHook) = ''stopped''
   \<and> currentRunIdRef (stopStreaming None 4 completedHook) = None
   \<and> stopStreaming None 5 (stopStreaming None 4 completedHook) = stopStreaming None 4 completedHook
   \<and> stopStreaming None 4 (initialHook 0) = initialHook 0"
proof -
  have m: "isMountedRef completedHook" and t: "truthy (currentRunIdRef completedHook)"
    by (simp_all add: completedHook_fields truthy_def)
  have i: "\<not> truthy (currentRunIdRef (initialHook 0))" by (simp add: initialHook_def truthy_def)
  show ?thesis
    using stop_is_idempotent[of completedHook None 4 None 5 sampleJson 0 "[]"]
      stop_is_idempotent[of "initialHook 0" None 4 None 5 sampleJson 0 "[]"] m t i
    by simp
qed

text \<open>
  Claim C7 as stated fails for a run that is already terminal: in \<open>completedHook\<close> the
  stream has reported its end (progress 100, step \<open>Completed\<close>), yet the run id is still
  set, and a stop calls \<^verbatim>\<open>stopAgent\<close> and changes the status to \<open>stopped\<close>.
\<close>

theorem stop_terminal_counterexample:
  "currentStep (progress (streamState completedHook)) = ''Completed''
   \<and> percentage (progress (streamState completedHook)) = 100
   \<and> status completedHook = ''streaming''
   \<and> status (stopStreaming None 4 completedHook) = ''stopped''
   \<and> stopStreaming None 4 completedHook \<noteq> completedHook
   \<and> StopAgent ''run-1'' \<in> set (effects (stopStreaming None 4 completedHook))"
proof -
  have m: "isMountedRef completedHook" and t: "truthy (currentRunIdRef completedHook)"
    by (simp_all add: completedHook_fields truthy_def)
  have s: "status (stopStreaming None 4 completedHook) = ''stopped''"
    by (rule stopStreaming_success(1)[OF m t])
  have n: "stopStreaming None 4 completedHook \<noteq> completedHook"
  proof
    assume "stopStreaming None 4 completedHook = completedHook"
    then have "status (stopStreaming None 4 completedHook) = status completedHook" by simp
    then show False using s by (simp add: completedHook_fields)
  qed
  have e: "StopAgent ''run-1'' \<in> set (effects (stopStreaming None 4 completedHook))"
    using stopStreaming_calls_stopAgent[OF m t, of None 4] by (simp add: completedHook_fields)
  show ?thesis using s n e by (simp add: completedHook_fields)
qed







section \<open>The run lock\<close>

lemma length_filter_mono:
  "(\<And>x. x \<in> set xs \<Longrightarrow> Q x \<Longrightarrow> P x) \<Longrightarrow> length (filter Q xs) \<le> length (filter P xs)"
proof (induction xs)
  case Nil
  then show ?case by simp
next
  case (Cons a xs)
  then have "length (filter Q xs) \<le> length (filter P xs)" by simp
  moreover have "Q a \<Longrightarrow> P a" using Cons.prems by simp
  ultimately show ?case by auto
qed

lemma validLocks_acquire:
  "atMostOne (validLocks r s) \<Longrightarrow> atMostOne (validLocks r (snd (acquire r' h ttl s)))"
proof (cases "validLocks r' s \<noteq> []")
  case True
  assume "atMostOne (validLocks r s)"
  then show ?thesis using True by (simp add: acquire_def)
next
  case False
  assume a: "atMostOne (validLocks r s)"
  show ?thesis
  proof (cases "r = r'")
    case True
    then have "validLocks r s = []" using False by simp
    then show ?thesis using False True by (simp add: acquire_def validLocks_def Let_def atMostOne_def)
  next
    case False': False
    then show ?thesis using False a by (simp add: acquire_def validLocks_def Let_def atMostOne_def)
  qed
qed

lemma validLocks_renew:
  assumes "atMostOne (validLocks r s)"
  shows "atMostOne (validLocks r (snd (renew l ttl s)))"
proof (cases "l \<in> set (locks s) \<and> nonExpired (clock s) l")
  case False
  then have "snd (renew l ttl s) = s" by (auto simp: renew_def)
  then show ?thesis using assms by simp
next
  case True
  let ?l' = "l\<lparr> expiresAt := clock s + ttl \<rparr>"
  let ?f = "\<lambda>x. if x = l then ?l' else x"
  let ?P = "\<lambda>x. runId x = r \<and> nonExpired (clock s) x"
  have s': "snd (renew l ttl s) = s\<lparr> locks := map ?f (locks s) \<rparr>"
    using True by (simp add: renew_def Let_def)
  have "validLocks r (snd (renew l ttl s)) = filter ?P (map ?f (locks s))"
    by (simp add: s' validLocks_def)
  also have "\<dots> = map ?f (filter (?P \<circ> ?f) (locks s))" by (simp add: filter_map)
  finally have "length (validLocks r (snd (renew l ttl s))) = length (filter (?P \<circ> ?f) (locks s))"
    by simp
  moreover have "length (filter (?P \<circ> ?f) (locks s)) \<le> length (filter ?P (locks s))"
  proof (rule length_filter_mono)
    fix x assume "x \<in> set (locks s)" and q: "(?P \<circ> ?f) x"
    show "?P x"
    proof (cases "x = l")
      case True': True
      then show ?thesis using q True by simp
    next
      case False
      then show ?thesis using q by simp
    qed
  qed
  ultimately show ?thesis using assms by (simp add: validLocks_def atMostOne_def)
qed

lemma validLocks_release:
  assumes "atMostOne (validLocks r s)"
  shows "atMostOne (validLocks r (release l s))"
proof -
  have "validLocks r (release l s) = filter (\<lambda>x. x \<noteq> l) (validLocks r s)"
    by (simp add: release_def validLocks_def conj_commute)
  then have "length (validLocks r (release l s)) \<le> length (validLocks r s)" by simp
  then show ?thesis using assms by (simp add: atMostOne_def)
qed

lemma validLocks_elapse:
  assumes "atMostOne (validLocks r s)"
  shows "atMostOne (validLocks r (s\<lparr> clock := clock s + d \<rparr>))"
proof -
  have "length (validLocks r (s\<lparr> clock := clock s + d \<rparr>)) \<le> length (validLocks r s)"
    unfolding validLocks_def
    by (simp, rule length_filter_mono) (simp add: nonExpired_def)
  then show ?thesis using assms by (simp add: atMostOne_def)
qed

lemma validLocks_lockStep:
  "atMostOne (validLocks r s) \<Longrightarrow> atMostOne (validLocks r (lockStep s ev))"
  by (cases ev) (simp_all add: validLocks_acquire validLocks_renew validLocks_release validLocks_elapse)

lemma validLocks_lockRun:
  "atMostOne (validLocks r s) \<Longrightarrow> atMostOne (validLocks r (lockRun s evs))"
  unfolding lockRun_def
  by (induction evs arbitrary: s) (simp_all add: validLocks_lockStep)

lemma validLocks_emptyStore: "validLocks r emptyStore = []"
  by (simp add: validLocks_def emptyStore_def)

lemma atMostOne_Nil: "atMostOne []"
  by (simp add: atMostOne_def)

lemma atMostOne_element:
  assumes "atMostOne xs" "a \<in> set xs" "b \<in> set xs"
  shows "a = b"
proof (cases xs)
  case Nil
  then show ?thesis using assms by simp
next
  case (Cons x ys)
  then have "ys = []" using assms(1) by (simp add: atMostOne_def)
  then show ?thesis using Cons assms by simp
qed

lemma acquire_held:
  "validLocks r s \<noteq> [] \<Longrightarrow> acquire r h ttl s = (AlreadyHeld, s)"
  by (simp add: acquire_def)

lemma acquire_free:
  "validLocks r s = [] \<Longrightarrow>
   acquire r h ttl s
     = (Lock \<lparr> runId = r, holderId = h, acquiredAt = clock s, expiresAt = clock s + ttl \<rparr>,
        s\<lparr> locks := locks s @ [\<lparr> runId = r, holderId = h, acquiredAt = clock s, expiresAt = clock s + ttl \<rparr>] \<rparr>)"
  by (simp add: acquire_def Let_def)

lemma claimAll_held:
  assumes "validLocks r s \<noteq> []" "\<forall>c\<in>set cs. fst c = r"
  shows "filter isLock (claimAll s cs) = []"
  using assms
proof (induction cs arbitrary: s)
  case Nil
  then show ?case by simp
next
  case (Cons c cs)
  obtain r' h ttl where c: "c = (r', h, ttl)" by (cases c) auto
  then have r': "r' = r" using Cons.prems(2) by simp
  have a: "acquire r h ttl s = (AlreadyHeld, s)" by (rule acquire_held[OF Cons.prems(1)])
  have "filter isLock (claimAll s cs) = []"
    using Cons.IH[OF Cons.prems(1)] Cons.prems(2) by simp
  then show ?case using c r' a by simp
qed

lemma claimAll_at_most_one:
  assumes "\<forall>c\<in>set cs. fst c = r \<and> 0 < snd (snd c)"
  shows "atMostOne (filter isLock (claimAll s cs))"
  using assms
proof (induction cs arbitrary: s)
  case Nil
  then show ?case by (simp add: atMostOne_def)
next
  case (Cons c cs)
  obtain r' h ttl where c: "c = (r', h, ttl)" by (cases c) auto
  then have r': "r' = r" and ttl: "0 < ttl" using Cons.prems by simp_all
  have rest: "\<forall>c\<in>set cs. fst c = r" using Cons.prems by simp
  show ?case
  proof (cases "validLocks r s = []")
    case False
    have "filter isLock (claimAll s (c # cs)) = []"
      by (rule claimAll_held[OF False]) (use Cons.prems in simp)
    then show ?thesis by (simp add: atMostOne_def)
  next
    case True
    let ?l = "\<lparr> runId = r, holderId = h, acquiredAt = clock s, expiresAt = clock s + ttl \<rparr>"
    let ?s' = "s\<lparr> locks := locks s @ [?l] \<rparr>"
    have a: "acquire r h ttl s = (Lock ?l, ?s')" by (rule acquire_free[OF True])
    have "validLocks r ?s' \<noteq> []" using ttl by (simp add: validLocks_def nonExpired_def)
    then have "filter isLock (claimAll ?s' cs) = []" using claimAll_held rest by blast
    then show ?thesis using c r' a by (simp add: atMostOne_def)
  qed
qed

text \<open>
  Claim C8, on the run lock as the specification describes it. After any steps on the
  store, by any workers and in any interleaving, a run has at most one non-expired lock;
  two non-expired locks of a run are the same lock, so one holder (one orchestrator
  instance) holds it; while a run has a non-expired lock every attempt to acquire it is
  refused; and of any number of claim attempts for one run, made with nothing in
  between, at most one gets the lock.
\<close>

theorem at_most_one_valid_lock:
  "atMostOne (validLocks r (lockRun emptyStore evs))
   \<and> (\<forall>a\<in>set (validLocks r (lockRun emptyStore evs)).
        \<forall>b\<in>set (validLocks r (lockRun emptyStore evs)). a = b \<and> holderId a = holderId b)
   \<and> (validLocks r (lockRun emptyStore evs) \<noteq> [] \<longrightarrow>
         acquire r h ttl (lockRun emptyStore evs) = (AlreadyHeld, lockRun emptyStore evs))
   \<and> ((\<forall>c\<in>set cs. fst c = r \<and> 0 < snd (snd c)) \<longrightarrow>
         atMostOne (filter isLock (claimAll (lockRun emptyStore evs) cs)))"
proof -
  have a: "atMostOne (validLocks r (lockRun emptyStore evs))"
    by (rule validLocks_lockRun) (simp add: validLocks_emptyStore atMostOne_Nil)
  have b: "\<forall>a\<in>set (validLocks r (lockRun emptyStore evs)).
        \<forall>b\<in>set (validLocks r (lockRun emptyStore evs)). a = b \<and> holderId a = holderId b"
    using atMostOne_element[OF a] by blast
  have c: "validLocks r (lockRun emptyStore evs) \<noteq> [] \<longrightarrow>
         acquire r h ttl (lockRun emptyStore evs) = (AlreadyHeld, lockRun emptyStore evs)"
    using acquire_held by blast
  have d: "(\<forall>c\<in>set cs. fst c = r \<and> 0 < snd (snd c)) \<longrightarrow>
         atMostOne (filter isLock (claimAll (lockRun emptyStore evs) cs))"
    using claimAll_at_most_one by blast
  show ?thesis using a b c d by (intro conjI)
qed

lemma sample_lockRun:
  "lockRun emptyStore
     [Acquire ''run-1'' ''worker-A'' 60, Elapse 10, Acquire ''run-1'' ''worker-B'' 60,
      Renew \<lparr> runId = ''run-1'', holderId = ''worker-A'', acquiredAt = 0, expiresAt = 60 \<rparr> 60,
      Elapse 55, Acquire ''run-1'' ''worker-C'' 60]
   = \<lparr> locks = [\<lparr> runId = ''run-1'', holderId = ''worker-A'', acquiredAt = 0, expiresAt = 70 \<rparr>],
       clock = 65 \<rparr>"
  by (simp add: lockRun_def emptyStore_def acquire_def renew_def validLocks_def nonExpired_def Let_def)

lemma sample_claimAll:
  "claimAll emptyStore
      [(''run-1'', ''worker-A'', 60), (''run-1'', ''worker-B'', 60), (''run-1'', ''worker-C'', 60)]
   = [Lock \<lparr> runId = ''run-1'', holderId = ''worker-A'', acquiredAt = 0, expiresAt = 60 \<rparr>,
      AlreadyHeld, AlreadyHeld]"
  by (simp add: emptyStore_def acquire_def validLocks_def nonExpired_def Let_def)

text \<open>Worker A acquires the lock of \<open>run-1\<close> and renews it; the attempts of B and C are
  refused and A's lock is the only valid one. Of three attempts in a row on the empty
  store, the first gets the lock.\<close>

theorem at_most_one_valid_lock_witness:
  "validLocks ''run-1'' (lockRun emptyStore
     [Acquire ''run-1'' ''worker-A'' 60, Elapse 10, Acquire ''run-1'' ''worker-B'' 60,
      Renew \<lparr> runId = ''run-1'', holderId = ''worker-A'', acquiredAt = 0, expiresAt = 60 \<rparr> 60,
      Elapse 55, Acquire ''run-1'' ''worker-C'' 60])
     = [\<lparr> runId = ''run-1'', holderId = ''worker-A'', acquiredAt = 0, expiresAt = 70 \<rparr>]
   \<and> atMostOne (validLocks ''run-1'' (lockRun emptyStore
     [Acquire ''run-1'' ''worker-A'' 60, Elapse 10, Acquire ''run-1'' ''worker-B'' 60,
      Renew \<lparr> runId = ''run-1'', holderId = ''worker-A'', acquiredAt = 0, expiresAt = 60 \<rparr> 60,
      Elapse 55, Acquire ''run-1'' ''worker-C'' 60]))
   \<and> claimAll (lockRun emptyStore [])
      [(''run-1'', ''worker-A'', 60), (''run-1'', ''worker-B'', 60), (''run-1'', ''worker-C'', 60)]
     = [Lock \<lparr> runId = ''run-1'', holderId = ''worker-A'', acquiredAt = 0, expiresAt = 60 \<rparr>,
        AlreadyHeld, AlreadyHeld]
   \<and> atMostOne (filter isLock (claimAll (lockRun emptyStore [])
      [(''run-1'', ''worker-A'', 60), (''run-1'', ''worker-B'', 60), (''run-1'', ''worker-C'', 60)]))"
proof -
  let ?evs = "[Acquire ''run-1'' ''worker-A'' 60, Elapse 10, Acquire ''run-1'' ''worker-B'' 60,
      Renew \<lparr> runId = ''run-1'', holderId = ''worker-A'', acquiredAt = 0, expiresAt = 60 \<rparr> 60,
      Elapse 55, Acquire ''run-1'' ''worker-C'' 60]"
  let ?cs = "[(''run-1'', ''worker-A'', 60::nat), (''run-1'', ''worker-B'', 60), (''run-1'', ''worker-C'', 60)]"
  have v: "validLocks ''run-1'' (lockRun emptyStore ?evs)
     = [\<lparr> runId = ''run-1'', holderId = ''worker-A'', acquiredAt = 0, expiresAt = 70 \<rparr>]"
    unfolding sample_lockRun by (simp add: validLocks_def nonExpired_def)
  have e: "lockRun emptyStore [] = emptyStore" by (simp add: lockRun_def)
  have c: "claimAll (lockRun emptyStore []) ?cs
     = [Lock \<lparr> runId = ''run-1'', holderId = ''worker-A'', acquiredAt = 0, expiresAt = 60 \<rparr>,
        AlreadyHeld, AlreadyHeld]"
    unfolding e by (rule sample_claimAll)
  have h: "\<forall>c\<in>set ?cs. fst c = ''run-1'' \<and> 0 < snd (snd c)" by simp
  have 1: "atMostOne (validLocks ''run-1'' (lockRun emptyStore ?evs))"
    using at_most_one_valid_lock[of "''run-1''" ?evs] by blast
  have 2: "atMostOne (filter isLock (claimAll (lockRun emptyStore []) ?cs))"
    using at_most_one_valid_lock[of "''run-1''" "[]" _ _ ?cs] h by blast
  show ?thesis using v 1 c 2 by (intro conjI)
qed

section \<open>Timeouts\<close>

lemma performRequest_bound:
  assumes "performRequest cfg net = Some (t, r)" "sessionTime net = Some d1"
  shows "t \<le> max (timeoutOf cfg) d1"
  using assms by (auto simp: performRequest_def split: option.splits if_splits)

text \<open>A call whose session lookup has returned by the time of the timeout settles by
  then: with what the fetch yields when the fetch is done before the timeout, with a
  TimeoutError otherwise.\<close>

lemma performRequest_within:
  assumes "sessionTime net = Some d1" "d1 \<le> timeoutOf cfg"
  shows "\<exists>t r. performRequest cfg net = Some (t, r) \<and> t \<le> timeoutOf cfg
           \<and> (fetchTime net = None \<or> (\<exists>d2. fetchTime net = Some d2 \<and> timeoutOf cfg \<le> d1 + d2)
                \<longrightarrow> r = Inl timeoutError)
           \<and> (\<forall>d2. fetchTime net = Some d2 \<and> d1 + d2 < timeoutOf cfg
                \<longrightarrow> t = d1 + d2 \<and> r = fetchOutcome (fetchResult net))"
  using assms by (auto simp: performRequest_def split: option.splits if_splits)

lemma performRequest_never: "sessionTime net = None \<Longrightarrow> performRequest cfg net = None"
  by (simp add: performRequest_def)

lemma performRequest_late_session:
  assumes "sessionTime net = Some d1" "timeoutOf cfg \<le> d1"
  shows "performRequest cfg net = Some (d1, Inl timeoutError)"
  using assms by (simp add: performRequest_def)

lemma timeoutOf_sample: "timeoutOf sampleConfig = 30000"
  by (simp add: timeoutOf_def sampleConfig_def)

text \<open>
  Claim C3 does not hold of \<^verbatim>\<open>performRequest\<close>. The budget of the sample request is the
  default, 30000 ms. A fetch that never completes is aborted at 30000 ms and the call
  throws a TimeoutError then, as the claim says. But the signal of the abort controller
  is passed to \<^verbatim>\<open>fetch\<close> only: the call first awaits the session lookup, which nothing
  bounds. With a lookup that takes 40000 ms the call throws its TimeoutError at
  40000 ms, and with a lookup that never returns the call never settles.
\<close>

theorem session_lookup_outlasts_timeout:
  "timeoutOf sampleConfig = 30000
   \<and> performRequest sampleConfig hangingNetwork = Some (30000, Inl timeoutError)
   \<and> sessionTime slowSessionNetwork = Some 40000
   \<and> performRequest sampleConfig slowSessionNetwork = Some (40000, Inl timeoutError)
   \<and> performRequest sampleConfig (slowSessionNetwork\<lparr> sessionTime := None \<rparr>) = None
   \<and> attemptOutcome sampleConfig (slowSessionNetwork\<lparr> sessionTime := None \<rparr>) = Pending"
  by (simp add: timeoutOf_sample performRequest_def attemptOutcome_def hangingNetwork_def
        slowSessionNetwork_def)

end
